theory Spec2Isabelle
  imports Main "HOL-Library.Word"
begin

unbundle bit_operations_syntax

section \<open>Authentication engine\<close>

text \<open>
  The background service worker computes the OBS WebSocket v5 authentication string with
  two platform functions: \<^verbatim>\<open>crypto.subtle.digest('SHA-256', data)\<close> and \<^verbatim>\<open>btoa\<close>.
  Both are modelled in full: SHA-256 after FIPS 180-4 on 32-bit words, base64 after
  RFC 4648 with the standard alphabet and padding.

  Text is modelled by the bytes of its UTF-8 encoding, one \<^typ>\<open>char\<close> per byte, so that
  \<^verbatim>\<open>new TextEncoder().encode\<close> reads the bytes off and string concatenation is \<open>@\<close>.
\<close>

type_synonym byte = "8 word"
type_synonym w32 = "32 word"

subsection \<open>SHA-256\<close>

definition K256 :: "w32 list" where
  "K256 =
    [
     0x428A2F98, 0x71374491, 0xB5C0FBCF, 0xE9B5DBA5,
     0x3956C25B, 0x59F111F1, 0x923F82A4, 0xAB1C5ED5,
     0xD807AA98, 0x12835B01, 0x243185BE, 0x550C7DC3,
     0x72BE5D74, 0x80DEB1FE, 0x9BDC06A7, 0xC19BF174,
     0xE49B69C1, 0xEFBE4786, 0x0FC19DC6, 0x240CA1CC,
     0x2DE92C6F, 0x4A7484AA, 0x5CB0A9DC, 0x76F988DA,
     0x983E5152, 0xA831C66D, 0xB00327C8, 0xBF597FC7,
     0xC6E00BF3, 0xD5A79147, 0x06CA6351, 0x14292967,
     0x27B70A85, 0x2E1B2138, 0x4D2C6DFC, 0x53380D13,
     0x650A7354, 0x766A0ABB, 0x81C2C92E, 0x92722C85,
     0xA2BFE8A1, 0xA81A664B, 0xC24B8B70, 0xC76C51A3,
     0xD192E819, 0xD6990624, 0xF40E3585, 0x106AA070,
     0x19A4C116, 0x1E376C08, 0x2748774C, 0x34B0BCB5,
     0x391C0CB3, 0x4ED8AA4A, 0x5B9CCA4F, 0x682E6FF3,
     0x748F82EE, 0x78A5636F, 0x84C87814, 0x8CC70208,
     0x90BEFFFA, 0xA4506CEB, 0xBEF9A3F7, 0xC67178F2]"

definition H256 :: "w32 list" where
  "H256 =
    [
     0x6A09E667, 0xBB67AE85, 0x3C6EF372, 0xA54FF53A,
     0x510E527F, 0x9B05688C, 0x1F83D9AB, 0x5BE0CD19]"

definition Ch :: "w32 \<Rightarrow> w32 \<Rightarrow> w32 \<Rightarrow> w32" where
  "Ch x y z = (x AND y) XOR (NOT x AND z)"

definition Maj :: "w32 \<Rightarrow> w32 \<Rightarrow> w32 \<Rightarrow> w32" where
  "Maj x y z = (x AND y) XOR (x AND z) XOR (y AND z)"

definition Sigma0 :: "w32 \<Rightarrow> w32" where
  "Sigma0 x = word_rotr 2 x XOR word_rotr 13 x XOR word_rotr 22 x"

definition Sigma1 :: "w32 \<Rightarrow> w32" where
  "Sigma1 x = word_rotr 6 x XOR word_rotr 11 x XOR word_rotr 25 x"

definition sigma0 :: "w32 \<Rightarrow> w32" where
  "sigma0 x = word_rotr 7 x XOR word_rotr 18 x XOR drop_bit 3 x"

definition sigma1 :: "w32 \<Rightarrow> w32" where
  "sigma1 x = word_rotr 17 x XOR word_rotr 19 x XOR drop_bit 10 x"

fun be_words :: "byte list \<Rightarrow> w32 list" where
  "be_words (a # b # c # d # bs) =
     (push_bit 24 (ucast a) OR push_bit 16 (ucast b) OR push_bit 8 (ucast c) OR ucast d) # be_words bs"
| "be_words _ = []"

definition be_bytes :: "w32 \<Rightarrow> byte list" where
  "be_bytes w = [ucast (drop_bit 24 w), ucast (drop_bit 16 w), ucast (drop_bit 8 w), ucast w]"

definition length_bytes :: "nat \<Rightarrow> byte list" where
  "length_bytes n =
     (let l = (of_nat n :: 64 word)
      in [ucast (drop_bit 56 l), ucast (drop_bit 48 l), ucast (drop_bit 40 l), ucast (drop_bit 32 l),
          ucast (drop_bit 24 l), ucast (drop_bit 16 l), ucast (drop_bit 8 l), ucast l])"

definition pad :: "byte list \<Rightarrow> byte list" where
  "pad m = m @ [0x80] @ replicate ((119 - length m mod 64) mod 64) 0 @ length_bytes (8 * length m)"

primrec schedule :: "nat \<Rightarrow> w32 list \<Rightarrow> w32 list" where
  "schedule 0 ws = ws"
| "schedule (Suc n) ws =
     schedule n (ws @ [sigma1 (ws ! (length ws - 2)) + ws ! (length ws - 7)
                       + sigma0 (ws ! (length ws - 15)) + ws ! (length ws - 16)])"

fun rounds :: "w32 list \<Rightarrow> w32 list \<Rightarrow> w32 list \<Rightarrow> w32 list" where
  "rounds [a, b, c, d, e, f, g, h] (k # ks) (w # ws) =
     (let t1 = h + Sigma1 e + Ch e f g + k + w;
          t2 = Sigma0 a + Maj a b c
      in rounds [t1 + t2, a, b, c, d + t1, e, f, g] ks ws)"
| "rounds v _ _ = v"

definition compress :: "w32 list \<Rightarrow> byte list \<Rightarrow> w32 list" where
  "compress hs block = map2 (+) hs (rounds hs K256 (schedule 48 (be_words block)))"

fun blocks :: "w32 list \<Rightarrow> byte list \<Rightarrow> w32 list" where
  "blocks hs [] = hs"
| "blocks hs (b # bs) = blocks (compress hs (take 64 (b # bs))) (drop 63 bs)"

definition SHA256 :: "byte list \<Rightarrow> byte list" where
  "SHA256 m = concat (map be_bytes (blocks H256 (pad m)))"

subsection \<open>Base64\<close>

definition alphabet :: string where
  "alphabet = ''ABCDEFGHIJKLMNOPQRSTUVWXYZabcdefghijklmnopqrstuvwxyz0123456789+/''"

definition sextet :: "nat \<Rightarrow> char" where
  "sextet n = alphabet ! (n mod 64)"

fun base64 :: "byte list \<Rightarrow> string" where
  "base64 (a # b # c # bs) =
     (let n = unat a * 65536 + unat b * 256 + unat c
      in sextet (n div 262144) # sextet (n div 4096) # sextet (n div 64) # sextet n # base64 bs)"
| "base64 [a, b] =
     (let n = unat a * 65536 + unat b * 256
      in [sextet (n div 262144), sextet (n div 4096), sextet (n div 64), CHR ''=''])"
| "base64 [a] =
     (let n = unat a * 65536
      in [sextet (n div 262144), sextet (n div 4096), CHR ''='', CHR ''=''])"
| "base64 [] = []"

subsection \<open>The source functions\<close>

datatype error = Error string | TypeError string | InvalidCharacterError

text \<open>\<^verbatim>\<open>new TextEncoder().encode(message)\<close>: the UTF-8 bytes of the text.\<close>

definition encode :: "string \<Rightarrow> byte list" where
  "encode message = map of_char message"

text \<open>\<^verbatim>\<open>crypto.subtle.digest('SHA-256', data)\<close>.\<close>

definition digest :: "byte list \<Rightarrow> byte list" where
  "digest data = SHA256 data"

text \<open>
  \<^verbatim>\<open>String.fromCharCode(...hashArray)\<close> builds a binary string: one UTF-16 code unit per
  byte. A binary string is modelled by the list of its code units.
\<close>

definition fromCharCode :: "byte list \<Rightarrow> nat list" where
  "fromCharCode hashArray = map unat hashArray"

text \<open>\<^verbatim>\<open>btoa\<close> throws an InvalidCharacterError when a code unit is above 255.\<close>

definition btoa :: "nat list \<Rightarrow> error + string" where
  "btoa s = (if list_all (\<lambda>c. c < 256) s then Inr (base64 (map of_nat s)) else Inl InvalidCharacterError)"

definition sha256Base64 :: "string \<Rightarrow> error + string" where
  "sha256Base64 message =
     (let data = encode message;
          hashBuffer = digest data;
          hashArray = hashBuffer
      in btoa (fromCharCode hashArray))"

definition generateAuthString :: "string \<Rightarrow> string \<Rightarrow> string \<Rightarrow> error + string" where
  "generateAuthString password salt challenge =
     (let saltedPassword = password @ salt
      in case sha256Base64 saltedPassword of
           Inl e \<Rightarrow> Inl e
         | Inr saltedHash \<Rightarrow>
             (let challengeString = saltedHash @ challenge
              in case sha256Base64 challengeString of
                   Inl e \<Rightarrow> Inl e
                 | Inr authResponse \<Rightarrow> Inr authResponse))"

text \<open>The digest scheme in the words of the specification.\<close>

definition secretDigest_spec :: "string \<Rightarrow> string \<Rightarrow> string" where
  "secretDigest_spec password salt = base64 (SHA256 (encode (password @ salt)))"

definition authResponse_spec :: "string \<Rightarrow> string \<Rightarrow> string \<Rightarrow> string" where
  "authResponse_spec password salt challenge =
     base64 (SHA256 (encode (secretDigest_spec password salt @ challenge)))"

section \<open>The OBS WebSocket client\<close>

text \<open>
  The service worker is single-threaded and event-driven: module-level variables, mutated
  by socket handlers, timer callbacks, message listeners and the continuations of awaited
  promises. The model is a record of those variables together with the environment they
  act on (the socket objects, the scheduled timers, the suspended continuations,
  \<^verbatim>\<open>chrome.storage.local\<close>) and the list of effects produced so far. Each handler is a
  function from world to world; \<open>step\<close> dispatches one event of the environment.
\<close>

subsection \<open>Data\<close>

datatype json =
    JUndefined | JNull | JBool bool | JNum int | JStr string
  | JArr "json list" | JObj "(string \<times> json) list"

datatype authentication = Authentication (challenge: string) (salt: string)

datatype requestStatus = RequestStatus (result: bool) (comment: string)

text \<open>
  A parsed frame. \<open>Hello\<close> is op 0 with its optional \<^verbatim>\<open>d.authentication\<close>; \<open>Identify\<close> is
  op 1 with \<^verbatim>\<open>rpcVersion: 1\<close> and its optional \<^verbatim>\<open>authentication\<close> string; \<open>Identified\<close>
  is op 2; \<open>Event\<close> op 5; \<open>Request\<close> op 6 with requestType, requestId, requestData;
  \<open>RequestResponse\<close> op 7 with requestId, the optional requestStatus and responseData;
  \<open>RequestBatchResponse\<close> op 9; \<open>OtherOp\<close> any other op. An absent comment is the
  empty string.
\<close>

datatype frame =
    Hello "authentication option"
  | Identify "string option"
  | Identified
  | Event
  | Request string string json
  | RequestResponse string "requestStatus option" json
  | RequestBatchResponse
  | OtherOp

datatype readyState = CONNECTING | OPEN | CLOSING | CLOSED

text \<open>
  The \<^verbatim>\<open>{ resolve, reject }\<close> pair stored for a request settles the promise that
  \<^verbatim>\<open>sendRequest\<close> returned. What runs next depends on who awaits it: the keepalive
  callback (its \<^verbatim>\<open>catch\<close> branch reconnects) or any other caller.
\<close>

datatype awaiter = KeepAlive | Caller

datatype callback =
    RequestTimeoutCb string awaiter
  | ReconnectCb
  | SaveSettingsCb
  | KeepAliveCb

datatype timer = Timer (timerId: nat) (delay: nat) (repeats: bool) (callback: callback)

text \<open>A continuation suspended at an \<^verbatim>\<open>await\<close> (or \<^verbatim>\<open>then\<close>) on \<^verbatim>\<open>chrome.storage.local\<close>.\<close>

datatype task =
    StartupTask
  | ConnectTask
  | HelloTask "authentication option"
  | SaveSettingsTask

text \<open>
  What the client does that can be observed. A frame that reaches the message handler is
  recorded together with the socket whose message event delivered it.
\<close>

datatype effect =
    Send nat frame
  | Close nat
  | StatusUpdate bool bool "string option"
  | Resolve string json
  | Reject string error
  | LogReceived nat frame
  | LogReconnecting nat
  | LogKeepaliveStarted

record storage_local =
  obsUrl :: "string option"
  obsPassword :: "string option"
  browserSourceName :: "string option"
  displayDuration :: "nat option"
  storedAutoReconnect :: bool

record world =
  obsWebSocket :: "nat option"
  isConnected :: bool
  isAuthenticated :: bool
  messageRequestId :: nat
  pendingRequests :: "string \<rightharpoonup> awaiter"
  reconnectAttempts :: nat
  autoReconnect :: bool
  keepAliveInterval :: "nat option"
  storage :: storage_local
  sockets :: "readyState list"
  timers :: "timer list"
  nextTimer :: nat
  tasks :: "task list"
  effects :: "effect list"

text \<open>
  The state of a freshly started service worker. The last statement of the script reads
  \<^verbatim>\<open>autoReconnect\<close> from storage; its \<^verbatim>\<open>then\<close> callback is the one suspended task.
\<close>

definition init :: "storage_local \<Rightarrow> world" where
  "init st =
     \<lparr>obsWebSocket = None, isConnected = False, isAuthenticated = False,
      messageRequestId = 1, pendingRequests = Map.empty, reconnectAttempts = 0,
      autoReconnect = False, keepAliveInterval = None, storage = st,
      sockets = [], timers = [], nextTimer = 1, tasks = [StartupTask], effects = []\<rparr>"

subsection \<open>Platform operations\<close>

definition emit :: "world \<Rightarrow> effect \<Rightarrow> world" where
  "emit w e = w\<lparr>effects := effects w @ [e]\<rparr>"

definition setTimeout :: "world \<Rightarrow> nat \<Rightarrow> callback \<Rightarrow> world" where
  "setTimeout w ms cb =
     w\<lparr>timers := timers w @ [Timer (nextTimer w) ms False cb], nextTimer := nextTimer w + 1\<rparr>"

definition setInterval :: "world \<Rightarrow> nat \<Rightarrow> callback \<Rightarrow> world \<times> nat" where
  "setInterval w ms cb =
     (w\<lparr>timers := timers w @ [Timer (nextTimer w) ms True cb], nextTimer := nextTimer w + 1\<rparr>,
      nextTimer w)"

definition clearInterval :: "world \<Rightarrow> nat \<Rightarrow> world" where
  "clearInterval w i = w\<lparr>timers := filter (\<lambda>t. timerId t \<noteq> i) (timers w)\<rparr>"

text \<open>\<^verbatim>\<open>ws.readyState\<close> of socket object \<open>i\<close>.\<close>

definition readyStateOf :: "world \<Rightarrow> nat \<Rightarrow> readyState" where
  "readyStateOf w i = (if i < length (sockets w) then sockets w ! i else CLOSED)"

text \<open>\<^verbatim>\<open>ws.close()\<close>: starts the closing handshake unless the socket is closing or closed.\<close>

definition socket_close :: "world \<Rightarrow> nat \<Rightarrow> world" where
  "socket_close w i =
     (if readyStateOf w i = CONNECTING \<or> readyStateOf w i = OPEN
      then emit (w\<lparr>sockets := (sockets w)[i := CLOSING]\<rparr>) (Close i)
      else w)"

text \<open>The decimal digits of a number, as template strings and \<^verbatim>\<open>toString\<close> print it.\<close>

fun show_nat :: "nat \<Rightarrow> string" where
  "show_nat n =
     (if n < 10 then [''0123456789'' ! n]
      else show_nat (n div 10) @ [''0123456789'' ! (n mod 10)])"

declare show_nat.simps [simp del]

subsection \<open>The source functions\<close>

definition socketOpen :: "world \<Rightarrow> bool" where
  "socketOpen w = (case obsWebSocket w of Some i \<Rightarrow> readyStateOf w i = OPEN | None \<Rightarrow> False)"

definition sendToOBS :: "world \<Rightarrow> frame \<Rightarrow> world \<times> bool" where
  "sendToOBS w msg =
     (case obsWebSocket w of
        Some i \<Rightarrow> if readyStateOf w i = OPEN then (emit w (Send i msg), True) else (w, False)
      | None \<Rightarrow> (w, False))"

definition broadcastStatus :: "world \<Rightarrow> string option \<Rightarrow> world" where
  "broadcastStatus w err = emit w (StatusUpdate (isConnected w) (isAuthenticated w) err)"

text \<open>
  \<^verbatim>\<open>connectToOBS\<close> runs up to its \<^verbatim>\<open>await chrome.storage.local.get(['obsUrl'])\<close> and
  suspends; \<open>connectToOBS_resume\<close> is the rest. The flag says whether
  \<^verbatim>\<open>new WebSocket(url)\<close> throws (a URL the constructor rejects).
\<close>

definition connectToOBS :: "world \<Rightarrow> bool \<Rightarrow> world" where
  "connectToOBS w userInitiated =
     (if socketOpen w then w
      else
        let w1 = (if userInitiated then w\<lparr>autoReconnect := True, reconnectAttempts := 0\<rparr> else w)
        in w1\<lparr>tasks := tasks w1 @ [ConnectTask]\<rparr>)"

definition connectToOBS_resume :: "world \<Rightarrow> bool \<Rightarrow> world" where
  "connectToOBS_resume w throws =
     (if throws then broadcastStatus w (Some ''Failed to connect'')
      else w\<lparr>sockets := sockets w @ [CONNECTING], obsWebSocket := Some (length (sockets w))\<rparr>)"

definition stopKeepAlive :: "world \<Rightarrow> world" where
  "stopKeepAlive w =
     (case keepAliveInterval w of
        Some i \<Rightarrow> (clearInterval w i)\<lparr>keepAliveInterval := None\<rparr>
      | None \<Rightarrow> w)"

definition startKeepAlive :: "world \<Rightarrow> world" where
  "startKeepAlive w =
     (let w1 = stopKeepAlive w;
          (w2, i) = setInterval w1 20000 KeepAliveCb
      in emit (w2\<lparr>keepAliveInterval := Some i\<rparr>) LogKeepaliveStarted)"

text \<open>
  Settling the promise of a request. When the keepalive callback awaits it, a rejection
  continues in its \<^verbatim>\<open>catch\<close> branch: reset the counter, \<^verbatim>\<open>connectToOBS(true)\<close>.
\<close>

definition resolve :: "world \<Rightarrow> string \<Rightarrow> awaiter \<Rightarrow> json \<Rightarrow> world" where
  "resolve w requestId a responseData = emit w (Resolve requestId responseData)"

definition reject :: "world \<Rightarrow> string \<Rightarrow> awaiter \<Rightarrow> error \<Rightarrow> world" where
  "reject w requestId a err =
     (let w1 = emit w (Reject requestId err)
      in case a of
           KeepAlive \<Rightarrow> connectToOBS (w1\<lparr>reconnectAttempts := 0\<rparr>) True
         | Caller \<Rightarrow> w1)"

text \<open>The template string \<^verbatim>\<open>`req_${n}`\<close>.\<close>

definition requestIdOf :: "nat \<Rightarrow> string" where
  "requestIdOf n = ''req_'' @ show_nat n"

definition sendRequest :: "world \<Rightarrow> awaiter \<Rightarrow> string \<Rightarrow> json \<Rightarrow> world" where
  "sendRequest w a requestType requestData =
     (let requestId = requestIdOf (messageRequestId w);
          w1 = w\<lparr>messageRequestId := messageRequestId w + 1\<rparr>;
          msg = Request requestType requestId requestData;
          w2 = w1\<lparr>pendingRequests := (pendingRequests w1)(requestId \<mapsto> a)\<rparr>;
          w3 = setTimeout w2 10000 (RequestTimeoutCb requestId a);
          (w4, sent) = sendToOBS w3 msg
      in if \<not> sent
         then reject (w4\<lparr>pendingRequests := (pendingRequests w4)(requestId := None)\<rparr>)
                requestId a (Error ''WebSocket not connected'')
         else w4)"

text \<open>The callback of the 10 second timer of a request.\<close>

definition requestTimeout :: "world \<Rightarrow> string \<Rightarrow> awaiter \<Rightarrow> world" where
  "requestTimeout w requestId a =
     (if pendingRequests w requestId \<noteq> None
      then reject (w\<lparr>pendingRequests := (pendingRequests w)(requestId := None)\<rparr>)
             requestId a (Error ''Request timeout'')
      else w)"

text \<open>
  A response without \<^verbatim>\<open>requestStatus\<close> makes \<^verbatim>\<open>requestStatus.result\<close> throw a TypeError
  after the entry has been deleted; nothing catches it and nothing is settled.
\<close>

definition handleRequestResponse :: "world \<Rightarrow> string \<Rightarrow> requestStatus option \<Rightarrow> json \<Rightarrow> world" where
  "handleRequestResponse w requestId status responseData =
     (case pendingRequests w requestId of
        Some pending \<Rightarrow>
          (let w1 = w\<lparr>pendingRequests := (pendingRequests w)(requestId := None)\<rparr>
           in case status of
                None \<Rightarrow> w1
              | Some st \<Rightarrow>
                  if result st then resolve w1 requestId pending responseData
                  else reject w1 requestId pending
                         (Error (if comment st = [] then ''Request failed'' else comment st)))
      | None \<Rightarrow> w)"

text \<open>
  \<^verbatim>\<open>handleHello\<close> after its awaits (the stored password, then the two digests). It reads
  no variable before them, so the suspended part carries only the \<^verbatim>\<open>authentication\<close>
  field of the frame.
\<close>

definition handleHello :: "world \<Rightarrow> authentication option \<Rightarrow> world" where
  "handleHello w auth =
     (let password = (case obsPassword (storage w) of Some p \<Rightarrow> p | None \<Rightarrow> [])
      in case auth of
           Some a \<Rightarrow>
             if password = [] then broadcastStatus w (Some ''Password required'')
             else (case generateAuthString password (salt a) (challenge a) of
                     Inr authString \<Rightarrow> fst (sendToOBS w (Identify (Some authString)))
                   | Inl e \<Rightarrow> w)
         | None \<Rightarrow> fst (sendToOBS w (Identify None)))"

text \<open>
  \<^verbatim>\<open>handleOBSMessage\<close>. \<open>None\<close> is data that \<^verbatim>\<open>JSON.parse\<close> rejects: the handler throws
  before anything else. (A frame of op 0, 5 or 7 without \<^verbatim>\<open>d\<close> throws as well, after the
  console line; it is covered by \<open>None\<close>.) The socket \<open>i\<close> is the target of the event; the
  handler does not look at it, and every frame is handled the same way whichever socket
  delivered it.
\<close>

definition handleOBSMessage :: "world \<Rightarrow> nat \<Rightarrow> frame option \<Rightarrow> world" where
  "handleOBSMessage w i data =
     (case data of
        None \<Rightarrow> w
      | Some msg \<Rightarrow>
          (let w1 = emit w (LogReceived i msg)
           in case msg of
                Hello auth \<Rightarrow> w1\<lparr>tasks := tasks w1 @ [HelloTask auth]\<rparr>
              | Identified \<Rightarrow> broadcastStatus (startKeepAlive (w1\<lparr>isAuthenticated := True\<rparr>)) None
              | RequestResponse requestId status responseData \<Rightarrow>
                  handleRequestResponse w1 requestId status responseData
              | _ \<Rightarrow> w1))"

definition onopen :: "world \<Rightarrow> world" where
  "onopen w = broadcastStatus (w\<lparr>isConnected := True, reconnectAttempts := 0\<rparr>) None"

definition onerror :: "world \<Rightarrow> world" where
  "onerror w = broadcastStatus w (Some ''Connection error - is OBS running?'')"

definition onclose :: "world \<Rightarrow> world" where
  "onclose w =
     (let wasConnected = isConnected w;
          w1 = w\<lparr>isConnected := False, isAuthenticated := False, obsWebSocket := None\<rparr>;
          w2 = stopKeepAlive w1;
          w3 = (if wasConnected then broadcastStatus w2 (Some ''Disconnected'') else w2)
      in if autoReconnect w3
         then
           (let w4 = w3\<lparr>reconnectAttempts := reconnectAttempts w3 + 1\<rparr>;
                ms = min (reconnectAttempts w4 * 2000) 30000
            in setTimeout (emit w4 (LogReconnecting ms)) ms ReconnectCb)
         else w3)"

definition disconnectFromOBS :: "world \<Rightarrow> world" where
  "disconnectFromOBS w =
     (let w1 = w\<lparr>autoReconnect := False, reconnectAttempts := 0\<rparr>;
          w2 = stopKeepAlive w1;
          w3 = (case obsWebSocket w2 of
                  Some i \<Rightarrow> (socket_close w2 i)\<lparr>obsWebSocket := None\<rparr>
                | None \<Rightarrow> w2)
      in w3\<lparr>isConnected := False, isAuthenticated := False\<rparr>)"

text \<open>The callback of the 20 second keepalive interval.\<close>

definition keepAliveTick :: "world \<Rightarrow> world" where
  "keepAliveTick w =
     (if isAuthenticated w \<and> socketOpen w
      then sendRequest w KeepAlive ''GetVersion'' (JObj [])
      else if autoReconnect w \<and> \<not> isConnected w
      then connectToOBS (w\<lparr>reconnectAttempts := 0\<rparr>) True
      else w)"

subsection \<open>Events\<close>

text \<open>
  What the environment can do: deliver one of the \<^verbatim>\<open>chrome.runtime\<close> messages, let a
  caller (\<^verbatim>\<open>sendHighlightToOBS\<close>) issue a request, resume a suspended continuation, fire a
  timer, or raise an event on a socket object. Timers may fire in any order; an event
  that is not enabled (no such task or timer, a socket in the wrong state) does nothing.
\<close>

datatype event =
    CONNECT_OBS
  | DISCONNECT_OBS
  | SAVE_SETTINGS string string nat
  | CallSendRequest string json
  | Resume nat
  | ResumeThrowing nat
  | Fire nat
  | SocketOpen nat
  | SocketMessage nat "frame option"
  | SocketError nat
  | SocketClose nat

definition runCallback :: "world \<Rightarrow> callback \<Rightarrow> world" where
  "runCallback w cb =
     (case cb of
        RequestTimeoutCb requestId a \<Rightarrow> requestTimeout w requestId a
      | ReconnectCb \<Rightarrow> connectToOBS w False
      | SaveSettingsCb \<Rightarrow> connectToOBS w True
      | KeepAliveCb \<Rightarrow> keepAliveTick w)"

definition fire :: "world \<Rightarrow> nat \<Rightarrow> world" where
  "fire w i =
     (case find (\<lambda>t. timerId t = i) (timers w) of
        None \<Rightarrow> w
      | Some t \<Rightarrow>
          runCallback
            (if repeats t then w else w\<lparr>timers := filter (\<lambda>t. timerId t \<noteq> i) (timers w)\<rparr>)
            (callback t))"

definition runTask :: "world \<Rightarrow> task \<Rightarrow> bool \<Rightarrow> world" where
  "runTask w t throws =
     (case t of
        StartupTask \<Rightarrow>
          if storedAutoReconnect (storage w) then connectToOBS (w\<lparr>autoReconnect := True\<rparr>) False
          else w
      | ConnectTask \<Rightarrow> connectToOBS_resume w throws
      | HelloTask auth \<Rightarrow> handleHello w auth
      | SaveSettingsTask \<Rightarrow> setTimeout (disconnectFromOBS w) 500 SaveSettingsCb)"

definition resume :: "world \<Rightarrow> nat \<Rightarrow> bool \<Rightarrow> world" where
  "resume w k throws =
     (if k < length (tasks w)
      then runTask (w\<lparr>tasks := take k (tasks w) @ drop (Suc k) (tasks w)\<rparr>) (tasks w ! k) throws
      else w)"

definition step :: "world \<Rightarrow> event \<Rightarrow> world" where
  "step w e =
     (case e of
        CONNECT_OBS \<Rightarrow> connectToOBS w True
      | DISCONNECT_OBS \<Rightarrow>
          disconnectFromOBS (w\<lparr>storage := (storage w)\<lparr>storedAutoReconnect := False\<rparr>\<rparr>)
      | SAVE_SETTINGS url password duration \<Rightarrow>
          (let st = (storage w)\<lparr>obsUrl := Some url, obsPassword := Some password,
                                 displayDuration := Some duration, storedAutoReconnect := True\<rparr>;
               w1 = w\<lparr>storage := st\<rparr>
           in w1\<lparr>tasks := tasks w1 @ [SaveSettingsTask]\<rparr>)
      | CallSendRequest requestType requestData \<Rightarrow> sendRequest w Caller requestType requestData
      | Resume k \<Rightarrow> resume w k False
      | ResumeThrowing k \<Rightarrow> resume w k True
      | Fire i \<Rightarrow> fire w i
      | SocketOpen i \<Rightarrow>
          if readyStateOf w i = CONNECTING then onopen (w\<lparr>sockets := (sockets w)[i := OPEN]\<rparr>) else w
      | SocketMessage i data \<Rightarrow>
          if readyStateOf w i = OPEN then handleOBSMessage w i data else w
      | SocketError i \<Rightarrow>
          if readyStateOf w i \<noteq> CLOSED then onerror w else w
      | SocketClose i \<Rightarrow>
          if readyStateOf w i \<noteq> CLOSED then onclose (w\<lparr>sockets := (sockets w)[i := CLOSED]\<rparr>) else w)"

fun run :: "world \<Rightarrow> event list \<Rightarrow> world" where
  "run w [] = w"
| "run w (e # es) = run (step w e) es"

subsection \<open>The highlight operation\<close>

text \<open>
  \<^verbatim>\<open>sendHighlightToOBS\<close> is a sequence of awaited requests. How the promise of each
  \<^verbatim>\<open>sendRequest\<close> call settles is decided by the multiplexer, the server and the timer;
  here it is a parameter, and the model returns the requests issued, in order, together
  with the way the promise of the whole operation settles. \<open>Pending\<close> is a promise
  that never settles.
\<close>

datatype 'a promise = Fulfilled 'a | Rejected error | Pending

type_synonym request = "string \<times> json"

record messageData =
  username :: string
  message :: string
  userColor :: string
  timestamp :: string
  extractedAt :: nat

record response =
  success :: bool
  error :: "string option"

text \<open>JavaScript truthiness, and \<^verbatim>\<open>x?.key\<close> for a key that no built-in prototype has.\<close>

fun truthy :: "json \<Rightarrow> bool" where
  "truthy JUndefined = False"
| "truthy JNull = False"
| "truthy (JBool b) = b"
| "truthy (JNum n) = (n \<noteq> 0)"
| "truthy (JStr s) = (s \<noteq> [])"
| "truthy (JArr xs) = True"
| "truthy (JObj kvs) = True"

fun optChain :: "json \<Rightarrow> string \<Rightarrow> json" where
  "optChain (JObj kvs) key = (case map_of kvs key of Some v \<Rightarrow> v | None \<Rightarrow> JUndefined)"
| "optChain _ key = JUndefined"

text \<open>
  \<^verbatim>\<open>new URLSearchParams(init).toString()\<close>: the application/x-www-form-urlencoded
  serializer over the UTF-8 bytes of names and values.
\<close>

definition unreserved :: "char \<Rightarrow> bool" where
  "unreserved c =
     (c \<in> set ''*-._0123456789ABCDEFGHIJKLMNOPQRSTUVWXYZabcdefghijklmnopqrstuvwxyz'')"

definition hexDigit :: "nat \<Rightarrow> char" where
  "hexDigit n = ''0123456789ABCDEF'' ! n"

definition percentEncode :: "char \<Rightarrow> string" where
  "percentEncode c =
     (if c = CHR '' '' then ''+''
      else if unreserved c then [c]
      else [CHR ''%'', hexDigit (of_char c div 16), hexDigit (of_char c mod 16)])"

definition urlencode :: "string \<Rightarrow> string" where
  "urlencode s = concat (map percentEncode s)"

fun toString :: "(string \<times> string) list \<Rightarrow> string" where
  "toString [] = []"
| "toString [(k, v)] = urlencode k @ ''='' @ urlencode v"
| "toString ((k, v) # ps) = urlencode k @ ''='' @ urlencode v @ ''&'' @ toString ps"

definition sourceName :: "world \<Rightarrow> string" where
  "sourceName w =
     (case browserSourceName (storage w) of
        Some n \<Rightarrow> if n = [] then ''TwitchHighlight'' else n
      | None \<Rightarrow> ''TwitchHighlight'')"

definition duration :: "world \<Rightarrow> nat" where
  "duration w =
     (case displayDuration (storage w) of
        Some d \<Rightarrow> if d = 0 then 8 else d
      | None \<Rightarrow> 8)"

text \<open>The parameters; \<open>now\<close> is \<^verbatim>\<open>Date.now()\<close>.\<close>

definition params :: "world \<Rightarrow> nat \<Rightarrow> messageData \<Rightarrow> (string \<times> string) list" where
  "params w now md =
     [(''username'', username md),
      (''message'', message md),
      (''color'', userColor md),
      (''timestamp'', show_nat now),
      (''duration'', show_nat (duration w))]"

text \<open>\<^verbatim>\<open>baseUrl.split('?')[0] + '?' + params.toString()\<close>.\<close>

definition newUrl :: "string \<Rightarrow> (string \<times> string) list \<Rightarrow> string" where
  "newUrl baseUrl ps =
     (let urlBase = takeWhile (\<lambda>c. c \<noteq> CHR ''?'') baseUrl
      in urlBase @ ''?'' @ toString ps)"

definition getInputSettings :: "world \<Rightarrow> request" where
  "getInputSettings w = (''GetInputSettings'', JObj [(''inputName'', JStr (sourceName w))])"

definition setInputSettings :: "world \<Rightarrow> string \<Rightarrow> request" where
  "setInputSettings w url =
     (''SetInputSettings'',
      JObj [(''inputName'', JStr (sourceName w)), (''inputSettings'', JObj [(''url'', JStr url)])])"

definition pressInputPropertiesButton :: "world \<Rightarrow> request" where
  "pressInputPropertiesButton w =
     (''PressInputPropertiesButton'',
      JObj [(''inputName'', JStr (sourceName w)), (''propertyName'', JStr ''refreshnocache'')])"

definition targetNotFound :: "string \<Rightarrow> error" where
  "targetNotFound name =
     Error (''Browser source \"'' @ name @ ''\" not found or has no URL. ''
            @ ''Please create a browser source named \"'' @ name @ ''\" in OBS.'')"

definition sendHighlightToOBS ::
  "world \<Rightarrow> nat \<Rightarrow> (request \<Rightarrow> json promise) \<Rightarrow> messageData \<Rightarrow> request list \<times> bool promise" where
  "sendHighlightToOBS w now await md =
     (if \<not> isAuthenticated w then ([], Rejected (Error ''Not connected to OBS''))
      else
        let ps = params w now md;
            fetch = getInputSettings w
        in case await fetch of
             Pending \<Rightarrow> ([fetch], Pending)
           | Rejected e \<Rightarrow> ([fetch], Rejected e)
           | Fulfilled currentSettings \<Rightarrow>
               (let url = optChain (optChain currentSettings ''inputSettings'') ''url'';
                    baseUrl = (if truthy url then url else JStr [])
                in if \<not> truthy baseUrl then ([fetch], Rejected (targetNotFound (sourceName w)))
                   else case baseUrl of
                          JStr b \<Rightarrow>
                            (let update = setInputSettings w (newUrl b ps)
                             in case await update of
                                  Pending \<Rightarrow> ([fetch, update], Pending)
                                | Rejected e \<Rightarrow> ([fetch, update], Rejected e)
                                | Fulfilled _ \<Rightarrow>
                                    (let refresh = pressInputPropertiesButton w
                                     in case await refresh of
                                          Pending \<Rightarrow> ([fetch, update, refresh], Pending)
                                        | Rejected e \<Rightarrow> ([fetch, update, refresh], Rejected e)
                                        | Fulfilled _ \<Rightarrow> ([fetch, update, refresh], Fulfilled True)))
                        | _ \<Rightarrow> ([fetch], Rejected (TypeError ''baseUrl.split is not a function''))))"

definition errorMessage :: "error \<Rightarrow> string" where
  "errorMessage e =
     (case e of Error m \<Rightarrow> m | TypeError m \<Rightarrow> m | InvalidCharacterError \<Rightarrow> ''Invalid character'')"

text \<open>The \<^verbatim>\<open>HIGHLIGHT_MESSAGE\<close> case of the message listener: what \<^verbatim>\<open>sendResponse\<close> receives.\<close>

definition onMessage_HIGHLIGHT_MESSAGE ::
  "world \<Rightarrow> nat \<Rightarrow> (request \<Rightarrow> json promise) \<Rightarrow> messageData \<Rightarrow> response option" where
  "onMessage_HIGHLIGHT_MESSAGE w now await md =
     (case snd (sendHighlightToOBS w now await md) of
        Fulfilled _ \<Rightarrow> Some \<lparr>success = True, error = None\<rparr>
      | Rejected e \<Rightarrow> Some \<lparr>success = False, error = Some (errorMessage e)\<rparr>
      | Pending \<Rightarrow> None)"

subsection \<open>Reading the query string back\<close>

text \<open>
  The receiving side of the URL boundary, after the URL standard: split the query at \<open>&\<close>,
  drop empty pieces, split each piece at its first \<open>=\<close>, turn \<open>+\<close> into a space and
  decode percent escapes. It is the reference against which the serializer is checked.
\<close>

definition hexValue :: "char \<Rightarrow> nat" where
  "hexValue c = length (takeWhile (\<lambda>d. d \<noteq> c) ''0123456789ABCDEF'')"

fun percentDecode :: "string \<Rightarrow> string" where
  "percentDecode (c # h # l # cs) =
     (if c = CHR ''%'' then char_of (hexValue h * 16 + hexValue l) # percentDecode cs
      else (if c = CHR ''+'' then CHR '' '' else c) # percentDecode (h # l # cs))"
| "percentDecode (c # cs) = (if c = CHR ''+'' then CHR '' '' else c) # percentDecode cs"
| "percentDecode [] = []"

fun splitOn :: "char \<Rightarrow> string \<Rightarrow> string list" where
  "splitOn c [] = [[]]"
| "splitOn c (x # xs) =
     (if x = c then [] # splitOn c xs
      else case splitOn c xs of p # ps \<Rightarrow> (x # p) # ps | [] \<Rightarrow> [[x]])"

definition parsePair :: "string \<Rightarrow> string \<times> string" where
  "parsePair p =
     (percentDecode (takeWhile (\<lambda>c. c \<noteq> CHR ''='') p),
      percentDecode (drop 1 (dropWhile (\<lambda>c. c \<noteq> CHR ''='') p)))"

definition parseQuery :: "string \<Rightarrow> (string \<times> string) list" where
  "parseQuery q = map parsePair (filter (\<lambda>p. p \<noteq> []) (splitOn CHR ''&'' q))"

section \<open>Observations on a run\<close>

text \<open>The requests whose promise an effect settles, and all of them along a list of effects.\<close>

fun settled :: "effect \<Rightarrow> string list" where
  "settled (Resolve i d) = [i]"
| "settled (Reject i e) = [i]"
| "settled _ = []"

definition settledIds :: "effect list \<Rightarrow> string list" where
  "settledIds es = concat (map settled es)"

text \<open>The delays announced by the close handler, in order.\<close>

fun reconnectDelay :: "effect \<Rightarrow> nat list" where
  "reconnectDelay (LogReconnecting ms) = [ms]"
| "reconnectDelay _ = []"

definition reconnectDelays :: "effect list \<Rightarrow> nat list" where
  "reconnectDelays es = concat (map reconnectDelay es)"

fun isRequestTimer :: "timer \<Rightarrow> bool" where
  "isRequestTimer (Timer i ms r (RequestTimeoutCb q a)) = True"
| "isRequestTimer _ = False"

fun isKeepAliveTimer :: "timer \<Rightarrow> bool" where
  "isKeepAliveTimer (Timer i ms r KeepAliveCb) = True"
| "isKeepAliveTimer _ = False"

text \<open>The timers that are not keepalive intervals.\<close>

definition otherTimers :: "world \<Rightarrow> timer list" where
  "otherTimers w = filter (\<lambda>t. \<not> isKeepAliveTimer t) (timers w)"

text \<open>The effects that one event adds to the log.\<close>

definition newEffects :: "world \<Rightarrow> event \<Rightarrow> effect list" where
  "newEffects w e = drop (length (effects w)) (effects (step w e))"

text \<open>A close event on a socket that is not closed yet: the close handler runs.\<close>

fun closes :: "world \<Rightarrow> event \<Rightarrow> bool" where
  "closes w (SocketClose i) = (readyStateOf w i \<noteq> CLOSED)"
| "closes w e = False"

text \<open>
  The shape of the announced delays, oldest first, given the delay before them (0 at
  start-up): each delay is 2 s, or the one before it plus 2 s, capped at 30 s.
\<close>

fun ramp :: "nat \<Rightarrow> nat list \<Rightarrow> bool" where
  "ramp p [] = True"
| "ramp p (d # ds) = ((d = 2000 \<or> d = min (p + 2000) 30000) \<and> ramp d ds)"

text \<open>No event of the list lowers the attempt counter.\<close>

fun steady :: "world \<Rightarrow> event list \<Rightarrow> bool" where
  "steady w [] = True"
| "steady w (e # es) = (reconnectAttempts w \<le> reconnectAttempts (step w e) \<and> steady (step w e) es)"

fun helloReceived :: "effect \<Rightarrow> bool" where
  "helloReceived (LogReceived i (Hello a)) = True"
| "helloReceived _ = False"

fun identifiedReceived :: "effect \<Rightarrow> bool" where
  "identifiedReceived (LogReceived i Identified) = True"
| "identifiedReceived _ = False"

fun identifySent :: "effect \<Rightarrow> bool" where
  "identifySent (Send s (Identify a)) = True"
| "identifySent _ = False"

text \<open>
  The order of the handshake along a list of effects, oldest first. The state is the
  number of Hello frames received and not answered yet, and whether the effect just
  before was the reception of an Identified frame. An Identify frame needs an unanswered
  Hello, and answers it; the start of the keepalive needs the reception of an Identified
  frame right before it.
\<close>

fun advance :: "nat \<times> bool \<Rightarrow> effect \<Rightarrow> nat \<times> bool" where
  "advance (c, k) (LogReceived i (Hello a)) = (Suc c, False)"
| "advance (c, k) (LogReceived i Identified) = (c, True)"
| "advance (c, k) (Send s (Identify a)) = (c - 1, False)"
| "advance (c, k) e = (c, False)"

fun admissible :: "nat \<times> bool \<Rightarrow> effect \<Rightarrow> bool" where
  "admissible (c, k) (Send s (Identify a)) = (0 < c)"
| "admissible (c, k) LogKeepaliveStarted = k"
| "admissible (c, k) e = True"

fun licensed :: "nat \<times> bool \<Rightarrow> effect list \<Rightarrow> bool" where
  "licensed x [] = True"
| "licensed x (e # es) = (admissible x e \<and> licensed (advance x e) es)"

text \<open>
  The same order kept for each connection, as a state machine per connection attempt
  would keep it: the state holds the sockets that have received a Hello frame not
  answered yet, and an Identify frame must go to one of them.
\<close>

fun attempt_order :: "nat list \<times> bool \<Rightarrow> effect list \<Rightarrow> bool" where
  "attempt_order (gs, k) [] = True"
| "attempt_order (gs, k) (LogReceived i (Hello a) # es) = attempt_order (i # gs, False) es"
| "attempt_order (gs, k) (LogReceived i Identified # es) = attempt_order (gs, True) es"
| "attempt_order (gs, k) (Send s (Identify a) # es) =
     (s \<in> set gs \<and> attempt_order (remove1 s gs, False) es)"
| "attempt_order (gs, k) (LogKeepaliveStarted # es) = (k \<and> attempt_order (gs, False) es)"
| "attempt_order (gs, k) (e # es) = attempt_order (gs, False) es"

fun isHelloTask :: "task \<Rightarrow> bool" where
  "isHelloTask (HelloTask a) = True"
| "isHelloTask _ = False"

section \<open>Scenarios\<close>

text \<open>Empty storage: nothing saved yet, every setting at its default.\<close>

definition st0 :: storage_local where
  "st0 = \<lparr>obsUrl = None, obsPassword = None, browserSourceName = None, displayDuration = None,
          storedAutoReconnect = False\<rparr>"

text \<open>
  The start-up read finds nothing, the user presses Connect, the socket is created and
  opens.
\<close>

definition connected :: world where
  "connected = run (init st0) [Resume 0, CONNECT_OBS, Resume 0, SocketOpen 0]"

text \<open>A caller issues one request on the open socket.\<close>

definition issued :: world where
  "issued = step connected (CallSendRequest ''GetVersion'' (JObj []))"

text \<open>The server answers the handshake with Identified.\<close>

definition ready :: world where
  "ready = step connected (SocketMessage 0 (Some Identified))"

text \<open>A complete handshake without authentication.\<close>

definition handshake :: "event list" where
  "handshake =
     [Resume 0, CONNECT_OBS, Resume 0, SocketOpen 0, SocketMessage 0 (Some (Hello None)),
      Resume 0, SocketMessage 0 (Some Identified)]"

text \<open>Storage that holds the password p.\<close>

definition stp :: storage_local where
  "stp = st0\<lparr>obsPassword := Some ''p''\<rparr>"


text \<open>
  The first socket fails to open, the reconnect timer fires, the second socket opens and
  the server closes it before the handshake completes.
\<close>

definition closedBeforeReady :: "event list" where
  "closedBeforeReady =
     [Resume 0, CONNECT_OBS, Resume 0, SocketClose 0, Fire 1, Resume 0, SocketOpen 1,
      SocketMessage 1 (Some (Hello None)), Resume 0, SocketClose 1]"

text \<open>
  One press of the Connect button of the popup. The popup first saves the settings
  (\<^verbatim>\<open>SAVE_SETTINGS\<close>: disconnect, then \<^verbatim>\<open>connectToOBS(true)\<close> after 500 ms) and then
  sends \<^verbatim>\<open>CONNECT_OBS\<close>. The socket created for \<^verbatim>\<open>CONNECT_OBS\<close> is still connecting
  when the 500 ms timer fires.
\<close>

definition connectTwice :: "event list" where
  "connectTwice =
     [Resume 0, SAVE_SETTINGS ''ws://localhost:4455'' [] 8, Resume 0, CONNECT_OBS, Resume 0,
      Fire 1, Resume 0]"

text \<open>The authenticated client issues one request.\<close>

definition requestInFlight :: "event list" where
  "requestInFlight =
     [Resume 0, CONNECT_OBS, Resume 0, SocketOpen 0, SocketMessage 0 (Some Identified),
      CallSendRequest ''GetInputSettings'' (JObj [])]"

text \<open>
  The keepalive request is in flight when the socket drops; the first reconnect fails, and
  the request times out before the second reconnect fails as well.
\<close>

definition keepaliveReset :: "event list" where
  "keepaliveReset =
     [Resume 0, CONNECT_OBS, Resume 0, SocketOpen 0, SocketMessage 0 (Some Identified), Fire 1,
      SocketClose 0, Fire 3, Resume 0, SocketClose 1, Fire 2, Resume 0, SocketClose 2]"

text \<open>
  From the connected client: the socket closes, and two reconnect attempts fail before
  their sockets open.
\<close>

definition failingReconnects :: "event list" where
  "failingReconnects =
     [SocketClose 0, Fire 1, Resume 0, SocketClose 1, Fire 2, Resume 0, SocketClose 2]"

text \<open>The connected client has received a Hello frame that demands no authentication.\<close>

definition greeted :: world where
  "greeted = step connected (SocketMessage 0 (Some (Hello None)))"

text \<open>
  Socket 0 receives Hello and closes before the continuation of \<^verbatim>\<open>handleHello\<close> runs; the
  reconnect timer fires, socket 1 is created and opens, and then the continuation runs.
\<close>

definition staleHello :: "event list" where
  "staleHello =
     [Resume 0, CONNECT_OBS, Resume 0, SocketOpen 0, SocketMessage 0 (Some (Hello None)),
      SocketClose 0, Fire 1, Resume 1, SocketOpen 1, Resume 0]"

text \<open>
  After one press of the Connect button both sockets open; the Hello frame arrives on
  socket 0, which is no longer the current one.
\<close>

definition wrongSocket :: "event list" where
  "wrongSocket =
     connectTwice @ [SocketOpen 0, SocketOpen 1, SocketMessage 0 (Some (Hello None)), Resume 0]"

text \<open>A chat line, and three ways the server can answer the highlight requests.\<close>

definition md0 :: messageData where
  "md0 = \<lparr>username = ''viewer'', message = ''hi there'', userColor = ''#9147ff'',
          timestamp = ''12:00'', extractedAt = 0\<rparr>"

definition noUrl :: "request \<Rightarrow> json promise" where
  "noUrl r = Fulfilled (JObj [(''inputSettings'', JObj [])])"

definition allOk :: "request \<Rightarrow> json promise" where
  "allOk r =
     (if fst r = ''GetInputSettings''
      then Fulfilled (JObj [(''inputSettings'', JObj [(''url'', JStr ''http://host/overlay.html?username=old'')])])
      else Fulfilled JNull)"

definition refreshFails :: "request \<Rightarrow> json promise" where
  "refreshFails r =
     (if fst r = ''PressInputPropertiesButton'' then Rejected (Error ''No source was found'')
      else allOk r)"

section \<open>Invariants\<close>

text \<open>
  Each invariant is stated on the part of the world it depends on, so that a handler
  which leaves that part alone preserves it by an equation.
\<close>

text \<open>The multiplexer: the settled requests, the pending map and the next identifier.\<close>

definition mux :: "world \<Rightarrow> string list \<times> (string \<rightharpoonup> awaiter) \<times> nat" where
  "mux w = (settledIds (effects w), pendingRequests w, messageRequestId w)"


text \<open>The timers: identifiers are fresh, and the keepalive handle names a keepalive timer.\<close>

definition tim :: "world \<Rightarrow> timer list \<times> nat \<times> nat option" where
  "tim w = (timers w, nextTimer w, keepAliveInterval w)"

definition timers_inv :: "timer list \<times> nat \<times> nat option \<Rightarrow> bool" where
  "timers_inv x =
     (case x of (ts, next, ka) \<Rightarrow>
        (\<forall>t \<in> set ts. timerId t < next) \<and>
        (\<forall>k. ka = Some k \<longrightarrow> k < next \<and> (\<forall>t \<in> set ts. timerId t = k \<longrightarrow> callback t = KeepAliveCb)))"

text \<open>
  The reconnect policy. While a socket is open, inbound frames keep auto-reconnect
  enabled, keep a counter of zero at zero and announce no delay.
\<close>

definition rc :: "world \<Rightarrow> bool \<times> nat \<times> nat list" where
  "rc w = (autoReconnect w, reconnectAttempts w, reconnectDelays (effects w))"

definition settledOpen :: "bool \<times> nat \<times> nat list \<Rightarrow> bool \<times> nat \<times> nat list \<Rightarrow> bool" where
  "settledOpen x y =
     (case (x, y) of ((a, n, ds), (a', n', ds')) \<Rightarrow> (a \<longrightarrow> a') \<and> (n = 0 \<longrightarrow> n' = 0) \<and> ds' = ds)"

text \<open>
  The reconnect policy, one handler at a time: a handler that is not the close handler
  announces no delay and leaves the counter alone or resets it to zero.
\<close>

definition calm :: "bool \<times> nat \<times> nat list \<Rightarrow> bool \<times> nat \<times> nat list \<Rightarrow> bool" where
  "calm x y = (case (x, y) of ((a, n, ds), (a', n', ds')) \<Rightarrow> ds' = ds \<and> (n' = n \<or> n' = 0))"

text \<open>Along a run: the delays form a ramp, and a counter that is not zero matches the last delay.\<close>

definition ramp_inv :: "bool \<times> nat \<times> nat list \<Rightarrow> bool" where
  "ramp_inv x = (case x of (a, n, ds) \<Rightarrow> ramp 0 ds \<and> (n = 0 \<or> last (0 # ds) = min (n * 2000) 30000))"

text \<open>
  The handshake: the log of effects and the number of suspended continuations of
  \<^verbatim>\<open>handleHello\<close>. A handler that takes no part in the handshake only adds effects that
  are none of the four that matter, and leaves that number alone.
\<close>

definition hs :: "world \<Rightarrow> effect list \<times> nat" where
  "hs w = (effects w, length (filter isHelloTask (tasks w)))"

definition plain :: "effect \<Rightarrow> bool" where
  "plain e = (\<not> helloReceived e \<and> \<not> identifiedReceived e \<and> \<not> identifySent e \<and> e \<noteq> LogKeepaliveStarted)"

definition quiet :: "effect list \<times> nat \<Rightarrow> effect list \<times> nat \<Rightarrow> bool" where
  "quiet x y =
     (case (x, y) of ((es, n), (es', n')) \<Rightarrow> (\<exists>new. es' = es @ new \<and> list_all plain new) \<and> n' = n)"

text \<open>
  Along a run the log is in handshake order, and every suspended continuation of
  \<^verbatim>\<open>handleHello\<close> holds one of the unanswered Hello frames.
\<close>

definition hs_inv :: "effect list \<times> nat \<Rightarrow> bool" where
  "hs_inv x =
     (case x of (es, n) \<Rightarrow> licensed (0, False) es \<and> n \<le> fst (foldl advance (0, False) es))"

text \<open>The events that take part in the handshake.\<close>

definition special :: "world \<Rightarrow> event \<Rightarrow> bool" where
  "special w e =
     ((\<exists>i. readyStateOf w i = OPEN \<and> (e = SocketMessage i (Some Identified) \<or> (\<exists>a. e = SocketMessage i (Some (Hello a))))) \<or>
      (\<exists>k. (e = Resume k \<or> e = ResumeThrowing k) \<and> k < length (tasks w) \<and> isHelloTask (tasks w ! k)))"

section \<open>Properties of the authentication engine\<close>

text \<open>The FIPS 180-4 test vector for the one-block message abc.\<close>

lemma SHA256_abc:
  "SHA256 (encode ''abc'') =
    [0xba, 0x78, 0x16, 0xbf, 0x8f, 0x01, 0xcf, 0xea, 0x41, 0x41, 0x40, 0xde, 0x5d, 0xae, 0x22, 0x23,
     0xb0, 0x03, 0x61, 0xa3, 0x96, 0x17, 0x7a, 0x9c, 0xb4, 0x10, 0xff, 0x61, 0xf2, 0x00, 0x15, 0xad]"
  by code_simp

text \<open>The RFC 4648 test vectors, one for each padding length.\<close>

lemma base64_vectors:
  "base64 (encode ''f'') = ''Zg==''"
  "base64 (encode ''fo'') = ''Zm8=''"
  "base64 (encode ''foo'') = ''Zm9v''"
  "base64 (encode ''foobar'') = ''Zm9vYmFy''"
  by (simp_all add: encode_def sextet_def alphabet_def)

lemma btoa_fromCharCode: "btoa (fromCharCode bs) = Inr (base64 bs)"
proof -
  have "list_all (\<lambda>c. c < 256) (map unat bs)"
    using unsigned_less [where 'a = nat and 'b = 8] by (simp add: list_all_iff)
  moreover have "map of_nat (map unat bs) = bs"
    by (simp add: map_idI)
  ultimately show ?thesis
    by (simp add: btoa_def fromCharCode_def)
qed

lemma sha256Base64_eq: "sha256Base64 m = Inr (base64 (SHA256 (encode m)))"
  by (simp add: sha256Base64_def digest_def btoa_fromCharCode)

text \<open>
  The example of the specification: password p, salt s, challenge c. The expected strings
  were computed with an independent implementation of SHA-256 and base64.
\<close>

lemma SHA256_ps:
  "SHA256 (encode ''ps'') =
    [0x65, 0x27, 0xc9, 0x36, 0x1a, 0x2f, 0x46, 0x9c, 0x52, 0x75, 0xaf, 0xcb, 0x5d, 0x06, 0xe5, 0x30,
     0x13, 0x36, 0x7c, 0xd2, 0x31, 0x99, 0x5d, 0xe1, 0x3d, 0xc7, 0x21, 0x87, 0x11, 0x38, 0x83, 0x82]"
  by code_simp

lemma base64_ps:
  "base64
    [0x65, 0x27, 0xc9, 0x36, 0x1a, 0x2f, 0x46, 0x9c, 0x52, 0x75, 0xaf, 0xcb, 0x5d, 0x06, 0xe5, 0x30,
     0x13, 0x36, 0x7c, 0xd2, 0x31, 0x99, 0x5d, 0xe1, 0x3d, 0xc7, 0x21, 0x87, 0x11, 0x38, 0x83, 0x82] = ''ZSfJNhovRpxSda/LXQblMBM2fNIxmV3hPcchhxE4g4I=''"
  by (simp add: sextet_def alphabet_def)

lemma SHA256_ps_c:
  "SHA256 (encode ''ZSfJNhovRpxSda/LXQblMBM2fNIxmV3hPcchhxE4g4I=c'') =
    [0x2c, 0x47, 0xe1, 0xd9, 0x65, 0x41, 0x5a, 0x96, 0xbc, 0x33, 0x4e, 0x8f, 0xec, 0xc7, 0xa1, 0x2d,
     0x79, 0x53, 0xa0, 0x0d, 0x4f, 0xb4, 0x7d, 0xa5, 0x35, 0x23, 0x4f, 0x8d, 0x46, 0x55, 0x62, 0x5b]"
  by code_simp

lemma base64_ps_c:
  "base64
    [0x2c, 0x47, 0xe1, 0xd9, 0x65, 0x41, 0x5a, 0x96, 0xbc, 0x33, 0x4e, 0x8f, 0xec, 0xc7, 0xa1, 0x2d,
     0x79, 0x53, 0xa0, 0x0d, 0x4f, 0xb4, 0x7d, 0xa5, 0x35, 0x23, 0x4f, 0x8d, 0x46, 0x55, 0x62, 0x5b] = ''LEfh2WVBWpa8M06P7MehLXlToA1PtH2lNSNPjUZVYls=''"
  by (simp add: sextet_def alphabet_def)

lemma generateAuthString_p_s_c:
  "generateAuthString ''p'' ''s'' ''c'' = Inr ''LEfh2WVBWpa8M06P7MehLXlToA1PtH2lNSNPjUZVYls=''"
proof -
  have "sha256Base64 (''p'' @ ''s'') = Inr ''ZSfJNhovRpxSda/LXQblMBM2fNIxmV3hPcchhxE4g4I=''"
    using SHA256_ps base64_ps by (simp add: sha256Base64_eq)
  moreover have "sha256Base64 (''ZSfJNhovRpxSda/LXQblMBM2fNIxmV3hPcchhxE4g4I='' @ ''c'') = Inr ''LEfh2WVBWpa8M06P7MehLXlToA1PtH2lNSNPjUZVYls=''"
    using SHA256_ps_c base64_ps_c by (simp add: sha256Base64_eq)
  ultimately show ?thesis
    by (simp add: generateAuthString_def)
qed

text \<open>
  Claim C1. For every password, salt and challenge, generateAuthString returns (and never
  throws) base64(SHA256(secretDigest + challenge)) with
  secretDigest = base64(SHA256(password + salt)), over standard SHA-256 and standard
  base64 with padding. As a function of its three arguments alone it is pure and
  deterministic.
\<close>

theorem generateAuthString_correct:
  "generateAuthString pw sl ch = Inr (authResponse_spec pw sl ch)"
  by (simp add: generateAuthString_def sha256Base64_eq authResponse_spec_def secretDigest_spec_def)

section \<open>Properties of the client\<close>

text \<open>
The definitions that evaluate a run on a concrete list of events.
\<close>

lemmas model_defs =
  init_def st0_def step_def resume_def runTask_def fire_def runCallback_def
  connectToOBS_def connectToOBS_resume_def socketOpen_def readyStateOf_def
  emit_def setTimeout_def setInterval_def clearInterval_def socket_close_def
  sendToOBS_def broadcastStatus_def stopKeepAlive_def startKeepAlive_def
  resolve_def reject_def sendRequest_def requestTimeout_def handleRequestResponse_def
  handleHello_def handleOBSMessage_def onopen_def onerror_def onclose_def
  disconnectFromOBS_def keepAliveTick_def requestIdOf_def show_nat.simps Let_def

subsection \<open>Request identifiers\<close>




subsection \<open>The request multiplexer\<close>

lemma settledIds_append [simp]: "settledIds (xs @ ys) = settledIds xs @ settledIds ys"
  by (simp add: settledIds_def)

lemma settledIds_Nil [simp]: "settledIds [] = []"
  by (simp add: settledIds_def)

lemma settledIds_Cons [simp]: "settledIds (x # xs) = settled x @ settledIds xs"
  by (simp add: settledIds_def)

lemma mux_connectToOBS [simp]: "mux (connectToOBS w u) = mux w"
  by (simp add: mux_def connectToOBS_def Let_def)

lemma mux_connectToOBS_resume [simp]: "mux (connectToOBS_resume w b) = mux w"
  by (simp add: mux_def connectToOBS_resume_def broadcastStatus_def emit_def)

lemma mux_broadcastStatus [simp]: "mux (broadcastStatus w e) = mux w"
  by (simp add: mux_def broadcastStatus_def emit_def)

lemma mux_stopKeepAlive [simp]: "mux (stopKeepAlive w) = mux w"
  by (simp add: mux_def stopKeepAlive_def clearInterval_def split: option.splits)

lemma mux_startKeepAlive [simp]: "mux (startKeepAlive w) = mux w"
proof -
  have "mux (startKeepAlive w) = mux (stopKeepAlive w)"
    by (simp add: mux_def startKeepAlive_def setInterval_def emit_def Let_def)
  then show ?thesis by simp
qed

lemma mux_setTimeout [simp]: "mux (setTimeout w ms cb) = mux w"
  by (simp add: mux_def setTimeout_def)

lemma mux_sendToOBS [simp]: "mux (fst (sendToOBS w msg)) = mux w"
  by (simp add: mux_def sendToOBS_def emit_def split: option.splits)

lemma mux_socket_close [simp]: "mux (socket_close w i) = mux w"
  by (simp add: mux_def socket_close_def emit_def)

lemma mux_onopen [simp]: "mux (onopen w) = mux w"
proof -
  have "mux (onopen w) = mux (w\<lparr>isConnected := True, reconnectAttempts := 0\<rparr>)"
    unfolding onopen_def by (rule mux_broadcastStatus)
  then show ?thesis by (simp add: mux_def)
qed

lemma mux_onerror [simp]: "mux (onerror w) = mux w"
  by (simp add: onerror_def)

lemma mux_update [simp]:
  "mux (w\<lparr>isConnected := a\<rparr>) = mux w"
  "mux (w\<lparr>isAuthenticated := a\<rparr>) = mux w"
  "mux (w\<lparr>obsWebSocket := b\<rparr>) = mux w"
  "mux (w\<lparr>reconnectAttempts := c\<rparr>) = mux w"
  "mux (w\<lparr>autoReconnect := a\<rparr>) = mux w"
  "mux (w\<lparr>storage := d\<rparr>) = mux w"
  "mux (w\<lparr>sockets := e\<rparr>) = mux w"
  "mux (w\<lparr>timers := f\<rparr>) = mux w"
  "mux (w\<lparr>tasks := g\<rparr>) = mux w"
  "mux (w\<lparr>keepAliveInterval := h\<rparr>) = mux w"
  by (simp_all add: mux_def)


lemma mux_emit_neutral: "settled e = [] \<Longrightarrow> mux (emit w e) = mux w"
  by (simp add: mux_def emit_def)

lemma mux_onclose [simp]: "mux (onclose w) = mux w"
  by (simp add: onclose_def Let_def mux_emit_neutral)

lemma mux_disconnectFromOBS [simp]: "mux (disconnectFromOBS w) = mux w"
  by (simp add: disconnectFromOBS_def Let_def split: option.splits)

lemma mux_handleHello [simp]: "mux (handleHello w auth) = mux w"
  by (simp add: handleHello_def Let_def split: option.splits sum.splits)














lemma mux_runTask [simp]: "mux (runTask w t b) = mux w"
  by (cases t) (simp_all add: runTask_def)

lemma mux_resume [simp]: "mux (resume w k b) = mux w"
  by (simp add: resume_def)





lemma pendingRequests_reject [simp]: "pendingRequests (reject w i a e) = pendingRequests w"
  by (cases a) (simp_all add: reject_def emit_def connectToOBS_def Let_def)

lemma effects_connectToOBS [simp]: "effects (connectToOBS w u) = effects w"
  by (simp add: connectToOBS_def Let_def)

lemma effects_reject [simp]: "effects (reject w i a e) = effects w @ [Reject i e]"
  by (cases a) (simp_all add: reject_def emit_def Let_def)

lemma effects_resolve [simp]: "effects (resolve w i a d) = effects w @ [Resolve i d]"
  by (simp add: resolve_def emit_def)

lemma pendingRequests_resolve [simp]: "pendingRequests (resolve w i a d) = pendingRequests w"
  by (simp add: resolve_def emit_def)





lemma effects_requestTimeout:
  "pendingRequests w i \<noteq> None \<Longrightarrow>
   effects (requestTimeout w i a) = effects w @ [Reject i (Error ''Request timeout'')]"
  by (simp add: requestTimeout_def)




lemma mux_step_teardown:
  "mux (step w DISCONNECT_OBS) = mux w" "mux (step w (SocketClose i)) = mux w"
  by (simp_all add: step_def)

lemma pendingRequests_teardown:
  "pendingRequests (disconnectFromOBS w) = pendingRequests w"
  "pendingRequests (onclose w) = pendingRequests w"
  using mux_disconnectFromOBS [of w] mux_onclose [of w] by (simp_all add: mux_def)

lemma settledIds_teardown:
  "settledIds (effects (disconnectFromOBS w)) = settledIds (effects w)"
  "settledIds (effects (onclose w)) = settledIds (effects w)"
  using mux_disconnectFromOBS [of w] mux_onclose [of w] by (simp_all add: mux_def)




subsection \<open>Timers and teardown\<close>

lemma tim_update [simp]:
  "tim (w\<lparr>isConnected := a\<rparr>) = tim w"
  "tim (w\<lparr>isAuthenticated := a\<rparr>) = tim w"
  "tim (w\<lparr>obsWebSocket := b\<rparr>) = tim w"
  "tim (w\<lparr>reconnectAttempts := c\<rparr>) = tim w"
  "tim (w\<lparr>autoReconnect := a\<rparr>) = tim w"
  "tim (w\<lparr>storage := d\<rparr>) = tim w"
  "tim (w\<lparr>sockets := e\<rparr>) = tim w"
  "tim (w\<lparr>tasks := g\<rparr>) = tim w"
  "tim (w\<lparr>effects := h\<rparr>) = tim w"
  "tim (w\<lparr>pendingRequests := p\<rparr>) = tim w"
  "tim (w\<lparr>messageRequestId := n\<rparr>) = tim w"
  by (simp_all add: tim_def)

lemma tim_emit [simp]: "tim (emit w e) = tim w"
  by (simp add: emit_def)

lemma tim_broadcastStatus [simp]: "tim (broadcastStatus w e) = tim w"
  by (simp add: broadcastStatus_def)

lemma tim_connectToOBS [simp]: "tim (connectToOBS w u) = tim w"
  by (simp add: connectToOBS_def Let_def)

lemma tim_connectToOBS_resume [simp]: "tim (connectToOBS_resume w b) = tim w"
  by (simp add: connectToOBS_resume_def)

lemma tim_sendToOBS [simp]: "tim (fst (sendToOBS w msg)) = tim w"
  by (simp add: sendToOBS_def split: option.splits)

lemma tim_socket_close [simp]: "tim (socket_close w i) = tim w"
  by (simp add: socket_close_def)

lemma tim_resolve [simp]: "tim (resolve w i a d) = tim w"
  by (simp add: resolve_def)

lemma tim_reject [simp]: "tim (reject w i a e) = tim w"
  by (cases a) (simp_all add: reject_def Let_def)

lemma tim_handleHello [simp]: "tim (handleHello w auth) = tim w"
  by (simp add: handleHello_def Let_def split: option.splits sum.splits)

lemma tim_onopen [simp]: "tim (onopen w) = tim w"
  by (simp add: onopen_def)

lemma tim_onerror [simp]: "tim (onerror w) = tim w"
  by (simp add: onerror_def)

lemma tim_handleRequestResponse [simp]: "tim (handleRequestResponse w i st d) = tim w"
  by (simp add: handleRequestResponse_def Let_def split: option.splits)

lemma tim_requestTimeout [simp]: "tim (requestTimeout w i a) = tim w"
  by (simp add: requestTimeout_def)

lemma tim_setTimeout:
  "tim (setTimeout w ms cb) = (timers w @ [Timer (nextTimer w) ms False cb], Suc (nextTimer w), keepAliveInterval w)"
  by (simp add: tim_def setTimeout_def)

lemma tim_stopKeepAlive:
  "tim (stopKeepAlive w) =
     (case keepAliveInterval w of
        Some k \<Rightarrow> (filter (\<lambda>t. timerId t \<noteq> k) (timers w), nextTimer w, None)
      | None \<Rightarrow> tim w)"
  by (simp add: tim_def stopKeepAlive_def clearInterval_def split: option.splits)

lemma timers_inv_setTimeout:
  assumes "timers_inv (tim w)"
  shows "timers_inv (tim (setTimeout w ms cb))"
  using assms unfolding tim_setTimeout by (auto simp: timers_inv_def tim_def less_Suc_eq)

lemma timers_inv_stopKeepAlive:
  assumes "timers_inv (tim w)"
  shows "timers_inv (tim (stopKeepAlive w))"
  using assms unfolding tim_stopKeepAlive by (auto simp: timers_inv_def tim_def split: option.splits)

lemma timers_inv_filter:
  assumes "timers_inv (tim w)"
  shows "timers_inv (tim (w\<lparr>timers := filter P (timers w)\<rparr>))"
  using assms by (auto simp: timers_inv_def tim_def)

lemma timers_inv_startKeepAlive:
  assumes "timers_inv (tim w)"
  shows "timers_inv (tim (startKeepAlive w))"
proof -
  have "tim (startKeepAlive w) =
          (timers (stopKeepAlive w) @ [Timer (nextTimer (stopKeepAlive w)) 20000 True KeepAliveCb],
           Suc (nextTimer (stopKeepAlive w)), Some (nextTimer (stopKeepAlive w)))"
    by (simp add: startKeepAlive_def setInterval_def Let_def) (simp add: tim_def)
  with timers_inv_stopKeepAlive [OF assms] show ?thesis
    by (auto simp: timers_inv_def tim_def less_Suc_eq)
qed

lemma timers_inv_sendRequest:
  assumes "timers_inv (tim w)"
  shows "timers_inv (tim (sendRequest w a t d))"
proof -
  have "tim (sendRequest w a t d) = tim (setTimeout w 10000 (RequestTimeoutCb (requestIdOf (messageRequestId w)) a))"
    by (simp add: sendRequest_def Let_def sendToOBS_def tim_setTimeout split: option.splits)
  with timers_inv_setTimeout [OF assms] show ?thesis by simp
qed

lemma timers_inv_onclose:
  assumes "timers_inv (tim w)"
  shows "timers_inv (tim (onclose w))"
proof -
  let ?w1 = "w\<lparr>isConnected := False, isAuthenticated := False, obsWebSocket := None\<rparr>"
  from assms have "timers_inv (tim ?w1)" by simp
  then have a: "timers_inv (tim (stopKeepAlive ?w1))" by (rule timers_inv_stopKeepAlive)
  show ?thesis
    using a timers_inv_setTimeout
    by (simp add: onclose_def Let_def timers_inv_setTimeout)
qed

lemma timers_inv_disconnectFromOBS:
  assumes "timers_inv (tim w)"
  shows "timers_inv (tim (disconnectFromOBS w))"
proof -
  let ?w1 = "w\<lparr>autoReconnect := False, reconnectAttempts := 0\<rparr>"
  from assms have "timers_inv (tim ?w1)" by simp
  then have "timers_inv (tim (stopKeepAlive ?w1))" by (rule timers_inv_stopKeepAlive)
  then show ?thesis
    by (simp add: disconnectFromOBS_def Let_def split: option.splits)
qed

lemma timers_inv_handleOBSMessage:
  assumes "timers_inv (tim w)"
  shows "timers_inv (tim (handleOBSMessage w i data))"
proof (cases data)
  case None
  with assms show ?thesis by (simp add: handleOBSMessage_def)
next
  case (Some msg)
  have "timers_inv (tim (startKeepAlive (emit w (LogReceived i msg)\<lparr>isAuthenticated := True\<rparr>)))"
    using assms by (intro timers_inv_startKeepAlive) simp
  with Some assms show ?thesis
    by (cases msg) (simp_all add: handleOBSMessage_def Let_def)
qed

lemma timers_inv_keepAliveTick:
  assumes "timers_inv (tim w)"
  shows "timers_inv (tim (keepAliveTick w))"
  using assms timers_inv_sendRequest [OF assms] by (simp add: keepAliveTick_def)

lemma timers_inv_fire:
  assumes "timers_inv (tim w)"
  shows "timers_inv (tim (fire w i))"
proof (cases "find (\<lambda>t. timerId t = i) (timers w)")
  case None
  with assms show ?thesis by (simp add: fire_def)
next
  case (Some t)
  define w1 where "w1 = (if repeats t then w else w\<lparr>timers := filter (\<lambda>t. timerId t \<noteq> i) (timers w)\<rparr>)"
  have inv: "timers_inv (tim w1)"
    using assms timers_inv_filter [OF assms] by (simp add: w1_def)
  have "timers_inv (tim (runCallback w1 cb))" for cb
    using inv timers_inv_keepAliveTick [OF inv]
    by (cases cb) (simp_all add: runCallback_def)
  with Some show ?thesis
    by (simp add: fire_def w1_def)
qed

lemma timers_inv_resume:
  assumes "timers_inv (tim w)"
  shows "timers_inv (tim (resume w k b))"
proof -
  let ?w1 = "w\<lparr>tasks := take k (tasks w) @ drop (Suc k) (tasks w)\<rparr>"
  from assms have inv: "timers_inv (tim ?w1)" by simp
  have "timers_inv (tim (runTask ?w1 t b))" for t
    using inv timers_inv_setTimeout [OF timers_inv_disconnectFromOBS [OF inv]]
    by (cases t) (simp_all add: runTask_def)
  with assms show ?thesis by (simp add: resume_def)
qed

lemma timers_inv_step:
  assumes "timers_inv (tim w)"
  shows "timers_inv (tim (step w e))"
proof (cases e)
  case DISCONNECT_OBS
  have "timers_inv (tim (w\<lparr>storage := storage w\<lparr>storedAutoReconnect := False\<rparr>\<rparr>))"
    using assms by simp
  from timers_inv_disconnectFromOBS [OF this] DISCONNECT_OBS show ?thesis
    by (simp add: step_def)
next
  case (SAVE_SETTINGS u p d)
  with assms show ?thesis by (simp add: step_def Let_def)
next
  case (CallSendRequest t d)
  with timers_inv_sendRequest [OF assms] show ?thesis by (simp add: step_def)
next
  case (Resume k)
  with timers_inv_resume [OF assms] show ?thesis by (simp add: step_def)
next
  case (ResumeThrowing k)
  with timers_inv_resume [OF assms] show ?thesis by (simp add: step_def)
next
  case (Fire i)
  with timers_inv_fire [OF assms] show ?thesis by (simp add: step_def)
next
  case (SocketMessage i d)
  with assms timers_inv_handleOBSMessage [OF assms] show ?thesis by (simp add: step_def)
next
  case (SocketClose i)
  have "timers_inv (tim (w\<lparr>sockets := (sockets w)[i := CLOSED]\<rparr>))"
    using assms by simp
  from timers_inv_onclose [OF this] SocketClose assms show ?thesis
    by (simp add: step_def)
qed (use assms in \<open>simp_all add: step_def\<close>)

lemma timers_inv_run:
  assumes "timers_inv (tim w)"
  shows "timers_inv (tim (run w es))"
  using assms by (induction es arbitrary: w) (simp_all add: timers_inv_step)

lemma timers_inv_init: "timers_inv (tim (init st))"
  by (simp add: timers_inv_def tim_def init_def)

lemma filter_isRequestTimer_stopKeepAlive:
  assumes "timers_inv (tim w)"
  shows "filter isRequestTimer (timers (stopKeepAlive w)) = filter isRequestTimer (timers w)"
proof (cases "keepAliveInterval w")
  case None
  then show ?thesis by (simp add: stopKeepAlive_def)
next
  case (Some k)
  have "isRequestTimer t \<Longrightarrow> t \<in> set (timers w) \<Longrightarrow> timerId t \<noteq> k" for t
    using assms Some by (cases t) (auto simp: timers_inv_def tim_def)
  then have "filter (\<lambda>t. isRequestTimer t \<and> timerId t \<noteq> k) (timers w) = filter isRequestTimer (timers w)"
    by (intro filter_cong) auto
  with Some show ?thesis
    by (simp add: stopKeepAlive_def clearInterval_def conj_commute)
qed

lemma isKeepAliveTimer_iff: "isKeepAliveTimer t = (callback t = KeepAliveCb)"
  by (cases t; cases "callback t") simp_all

lemma otherTimers_stopKeepAlive:
  assumes "timers_inv (tim w)"
  shows "otherTimers (stopKeepAlive w) = otherTimers w"
proof (cases "keepAliveInterval w")
  case None
  then show ?thesis by (simp add: stopKeepAlive_def otherTimers_def)
next
  case (Some k)
  have "\<not> isKeepAliveTimer t \<Longrightarrow> t \<in> set (timers w) \<Longrightarrow> timerId t \<noteq> k" for t
    using assms Some by (auto simp: timers_inv_def tim_def isKeepAliveTimer_iff)
  then have "filter (\<lambda>t. \<not> isKeepAliveTimer t \<and> timerId t \<noteq> k) (timers w) =
             filter (\<lambda>t. \<not> isKeepAliveTimer t) (timers w)"
    by (intro filter_cong) auto
  with Some show ?thesis
    by (simp add: stopKeepAlive_def clearInterval_def otherTimers_def conj_commute)
qed

lemma set_timers_stopKeepAlive: "set (timers (stopKeepAlive w)) \<subseteq> set (timers w)"
  by (auto simp: stopKeepAlive_def clearInterval_def split: option.splits)

lemma nextTimer_disconnectFromOBS: "nextTimer (disconnectFromOBS w) = nextTimer w"
  by (simp add: disconnectFromOBS_def Let_def stopKeepAlive_def clearInterval_def socket_close_def emit_def
      split: option.splits)

lemma timers_disconnectFromOBS:
  "timers (disconnectFromOBS w) = timers (stopKeepAlive w)"
  by (simp add: disconnectFromOBS_def Let_def stopKeepAlive_def clearInterval_def socket_close_def emit_def
      split: option.splits)

lemma timers_onclose:
  "timers (onclose w) =
     timers (stopKeepAlive w) @
       (if autoReconnect w
        then [Timer (nextTimer w) (min ((reconnectAttempts w + 1) * 2000) 30000) False ReconnectCb]
        else [])"
  by (simp add: onclose_def Let_def stopKeepAlive_def clearInterval_def broadcastStatus_def emit_def
      setTimeout_def split: option.splits)

lemma autoReconnect_disconnectFromOBS: "\<not> autoReconnect (disconnectFromOBS w)"
  by (simp add: disconnectFromOBS_def Let_def stopKeepAlive_def clearInterval_def socket_close_def emit_def
      split: option.splits)

lemma otherTimers_disconnectFromOBS:
  assumes "timers_inv (tim w)"
  shows "otherTimers (disconnectFromOBS w) = otherTimers w"
  using otherTimers_stopKeepAlive [OF assms]
  by (simp add: otherTimers_def timers_disconnectFromOBS)

lemma otherTimers_onclose:
  assumes "timers_inv (tim w)"
  shows "otherTimers (onclose w) =
           otherTimers w @
             (if autoReconnect w
              then [Timer (nextTimer w) (min ((reconnectAttempts w + 1) * 2000) 30000) False ReconnectCb]
              else [])"
  using otherTimers_stopKeepAlive [OF assms]
  by (simp add: otherTimers_def timers_onclose)

lemma close_event:
  assumes "timers_inv (tim w)" "closes w e"
  shows "pendingRequests (step w e) = pendingRequests w"
    "settledIds (effects (step w e)) = settledIds (effects w)"
    "otherTimers (step w e) =
       otherTimers w @
         (if autoReconnect w
          then [Timer (nextTimer w) (min ((reconnectAttempts w + 1) * 2000) 30000) False ReconnectCb]
          else [])"
proof -
  from assms(2) obtain i where e: "e = SocketClose i" "readyStateOf w i \<noteq> CLOSED"
    by (cases e) simp_all
  let ?w = "w\<lparr>sockets := (sockets w)[i := CLOSED]\<rparr>"
  have s: "step w e = onclose ?w" using e by (simp add: step_def)
  have inv: "timers_inv (tim ?w)" using assms(1) by simp
  show "pendingRequests (step w e) = pendingRequests w"
    by (simp add: s pendingRequests_teardown)
  show "settledIds (effects (step w e)) = settledIds (effects w)"
    by (simp add: s settledIds_teardown)
  show "otherTimers (step w e) =
       otherTimers w @
         (if autoReconnect w
          then [Timer (nextTimer w) (min ((reconnectAttempts w + 1) * 2000) 30000) False ReconnectCb]
          else [])"
    unfolding s otherTimers_onclose [OF inv] by (simp add: otherTimers_def)
qed

lemma disconnect_event:
  assumes "timers_inv (tim w)"
  shows "pendingRequests (step w DISCONNECT_OBS) = pendingRequests w"
    "settledIds (effects (step w DISCONNECT_OBS)) = settledIds (effects w)"
    "otherTimers (step w DISCONNECT_OBS) = otherTimers w"
    "nextTimer (step w DISCONNECT_OBS) = nextTimer w"
    "\<not> autoReconnect (step w DISCONNECT_OBS)"
proof -
  let ?w = "w\<lparr>storage := (storage w)\<lparr>storedAutoReconnect := False\<rparr>\<rparr>"
  have s: "step w DISCONNECT_OBS = disconnectFromOBS ?w" by (simp add: step_def)
  have inv: "timers_inv (tim ?w)" using assms by simp
  show "pendingRequests (step w DISCONNECT_OBS) = pendingRequests w"
    by (simp add: s pendingRequests_teardown)
  show "settledIds (effects (step w DISCONNECT_OBS)) = settledIds (effects w)"
    by (simp add: s settledIds_teardown)
  show "otherTimers (step w DISCONNECT_OBS) = otherTimers w"
    unfolding s otherTimers_disconnectFromOBS [OF inv] by (simp add: otherTimers_def)
  show "nextTimer (step w DISCONNECT_OBS) = nextTimer w"
    by (simp add: s nextTimer_disconnectFromOBS)
  show "\<not> autoReconnect (step w DISCONNECT_OBS)"
    by (simp add: s autoReconnect_disconnectFromOBS)
qed

text \<open>
  Claim C3, as the code has it. In every state reached from start-up, tearing the
  connection down, by explicit disconnect or by a socket close, leaves the pending-request
  map as it is, settles no request and cancels no request timer: the only timers it
  removes are keepalive intervals, every other timer stays scheduled, in order, and a
  request that was pending is rejected with a timeout error when its timer fires right
  afterwards. Explicit disconnect turns auto-reconnect off and schedules no timer itself.
  The close handler schedules one timer, for the reconnect, exactly when auto-reconnect
  is enabled as it runs; so a close event that follows the disconnect directly schedules
  none. The same holds of the handlers and of the events that run them.
\<close>

theorem teardown_keeps_pending:
  fixes st es
  defines "w \<equiv> run (init st) es"
  shows
    "pendingRequests (disconnectFromOBS w) = pendingRequests w \<and>
     pendingRequests (onclose w) = pendingRequests w \<and>
     settledIds (effects (disconnectFromOBS w)) = settledIds (effects w) \<and>
     settledIds (effects (onclose w)) = settledIds (effects w) \<and>
     filter isRequestTimer (timers (disconnectFromOBS w)) = filter isRequestTimer (timers w) \<and>
     filter isRequestTimer (timers (onclose w)) = filter isRequestTimer (timers w) \<and>
     otherTimers (disconnectFromOBS w) = otherTimers w \<and>
     set (timers (disconnectFromOBS w)) \<subseteq> set (timers w) \<and>
     nextTimer (disconnectFromOBS w) = nextTimer w \<and>
     otherTimers (onclose w) =
       otherTimers w @
         (if autoReconnect w
          then [Timer (nextTimer w) (min ((reconnectAttempts w + 1) * 2000) 30000) False ReconnectCb]
          else []) \<and>
     (pendingRequests w q \<noteq> None \<longrightarrow>
        effects (requestTimeout (disconnectFromOBS w) q a) =
          effects (disconnectFromOBS w) @ [Reject q (Error ''Request timeout'')] \<and>
        effects (requestTimeout (onclose w) q a) =
          effects (onclose w) @ [Reject q (Error ''Request timeout'')]) \<and>
     \<not> autoReconnect (disconnectFromOBS w) \<and>
     otherTimers (onclose (disconnectFromOBS w)) = otherTimers w \<and>
     (closes w e \<longrightarrow>
        pendingRequests (step w e) = pendingRequests w \<and>
        settledIds (effects (step w e)) = settledIds (effects w) \<and>
        otherTimers (step w e) =
          otherTimers w @
            (if autoReconnect w
             then [Timer (nextTimer w) (min ((reconnectAttempts w + 1) * 2000) 30000) False ReconnectCb]
             else [])) \<and>
     pendingRequests (step w DISCONNECT_OBS) = pendingRequests w \<and>
     settledIds (effects (step w DISCONNECT_OBS)) = settledIds (effects w) \<and>
     otherTimers (step w DISCONNECT_OBS) = otherTimers w \<and>
     nextTimer (step w DISCONNECT_OBS) = nextTimer w \<and>
     \<not> autoReconnect (step w DISCONNECT_OBS)"
proof -
  have inv: "timers_inv (tim w)"
    unfolding w_def by (rule timers_inv_run [OF timers_inv_init])
  have inv': "timers_inv (tim (disconnectFromOBS w))"
    using inv by (rule timers_inv_disconnectFromOBS)
  have a: "filter isRequestTimer (timers (disconnectFromOBS w)) = filter isRequestTimer (timers w)"
    by (simp add: timers_disconnectFromOBS filter_isRequestTimer_stopKeepAlive [OF inv])
  have b: "filter isRequestTimer (timers (onclose w)) = filter isRequestTimer (timers w)"
    by (simp add: timers_onclose filter_isRequestTimer_stopKeepAlive [OF inv])
  have c: "otherTimers (onclose (disconnectFromOBS w)) = otherTimers w"
    using autoReconnect_disconnectFromOBS [of w]
    by (simp add: otherTimers_onclose [OF inv'] otherTimers_disconnectFromOBS [OF inv])
  have d: "set (timers (disconnectFromOBS w)) \<subseteq> set (timers w)"
    by (simp add: timers_disconnectFromOBS set_timers_stopKeepAlive)
  have g: "pendingRequests w q \<noteq> None \<longrightarrow>
        effects (requestTimeout (disconnectFromOBS w) q a) =
          effects (disconnectFromOBS w) @ [Reject q (Error ''Request timeout'')] \<and>
        effects (requestTimeout (onclose w) q a) =
          effects (onclose w) @ [Reject q (Error ''Request timeout'')]"
    by (simp add: effects_requestTimeout pendingRequests_teardown)
  have h: "closes w e \<longrightarrow>
        pendingRequests (step w e) = pendingRequests w \<and>
        settledIds (effects (step w e)) = settledIds (effects w) \<and>
        otherTimers (step w e) =
          otherTimers w @
            (if autoReconnect w
             then [Timer (nextTimer w) (min ((reconnectAttempts w + 1) * 2000) 30000) False ReconnectCb]
             else [])"
    using close_event [OF inv, of e] by blast
  from a b c d g h autoReconnect_disconnectFromOBS [of w]
    otherTimers_disconnectFromOBS [OF inv] otherTimers_onclose [OF inv]
    pendingRequests_teardown [of w] settledIds_teardown [of w] nextTimer_disconnectFromOBS [of w]
    disconnect_event [OF inv]
  show ?thesis by blast
qed

text \<open>
  The theorem at the authenticated client with one request in flight: teardown removes
  the keepalive interval and keeps the request timer, and the close handler, which finds
  auto-reconnect enabled, adds the reconnect timer.
\<close>

theorem teardown_keeps_pending_witness:
  "pendingRequests (run (init st0) requestInFlight) ''req_1'' = Some Caller \<and>
   timers (run (init st0) requestInFlight) =
     [Timer 1 20000 True KeepAliveCb, Timer 2 10000 False (RequestTimeoutCb ''req_1'' Caller)] \<and>
   timers (disconnectFromOBS (run (init st0) requestInFlight)) =
     [Timer 2 10000 False (RequestTimeoutCb ''req_1'' Caller)] \<and>
   timers (onclose (run (init st0) requestInFlight)) =
     [Timer 2 10000 False (RequestTimeoutCb ''req_1'' Caller), Timer 3 2000 False ReconnectCb] \<and>
   otherTimers (onclose (run (init st0) requestInFlight)) =
     [Timer 2 10000 False (RequestTimeoutCb ''req_1'' Caller), Timer 3 2000 False ReconnectCb] \<and>
   effects (requestTimeout (disconnectFromOBS (run (init st0) requestInFlight)) ''req_1'' Caller) =
     effects (disconnectFromOBS (run (init st0) requestInFlight)) @ [Reject ''req_1'' (Error ''Request timeout'')] \<and>
   effects (requestTimeout (onclose (run (init st0) requestInFlight)) ''req_1'' Caller) =
     effects (onclose (run (init st0) requestInFlight)) @ [Reject ''req_1'' (Error ''Request timeout'')] \<and>
   closes (run (init st0) requestInFlight) (SocketClose 0) \<and>
   pendingRequests (step (run (init st0) requestInFlight) (SocketClose 0)) ''req_1'' = Some Caller \<and>
   otherTimers (step (run (init st0) requestInFlight) (SocketClose 0)) =
     [Timer 2 10000 False (RequestTimeoutCb ''req_1'' Caller), Timer 3 2000 False ReconnectCb]"
proof -
  let ?w = "run (init st0) requestInFlight"
  have p: "pendingRequests ?w ''req_1'' = Some Caller"
    "timers ?w = [Timer 1 20000 True KeepAliveCb, Timer 2 10000 False (RequestTimeoutCb ''req_1'' Caller)]"
    "autoReconnect ?w" "reconnectAttempts ?w = 0" "nextTimer ?w = 3" "keepAliveInterval ?w = Some 1"
    by (simp_all add: requestInFlight_def model_defs)
  have t: "timers (disconnectFromOBS ?w) = [Timer 2 10000 False (RequestTimeoutCb ''req_1'' Caller)]"
    "timers (onclose ?w) =
       [Timer 2 10000 False (RequestTimeoutCb ''req_1'' Caller), Timer 3 2000 False ReconnectCb]"
    by (simp_all add: timers_disconnectFromOBS timers_onclose stopKeepAlive_def clearInterval_def p)
  have c: "closes ?w (SocketClose 0)"
    by (simp add: requestInFlight_def model_defs)
  from teardown_keeps_pending [of st0 requestInFlight "''req_1''" Caller "SocketClose 0"] p t c
  show ?thesis
    by (simp add: otherTimers_def)
qed

text \<open>
  Against claim C3 as stated: the user disconnects while a request is pending and the
  socket then closes. The entry is still in the map, its timer is still scheduled and
  nothing has been rejected.
\<close>

theorem disconnect_keeps_pending:
  "pendingRequests (run issued [DISCONNECT_OBS, SocketClose 0]) ''req_1'' = Some Caller \<and>
   timers (run issued [DISCONNECT_OBS, SocketClose 0]) =
     [Timer 1 10000 False (RequestTimeoutCb ''req_1'' Caller)] \<and>
   settledIds (effects (run issued [DISCONNECT_OBS, SocketClose 0])) = []"
  by (simp add: issued_def connected_def model_defs settledIds_def)

text \<open>
  What the close handler does after a disconnect depends on what ran in between. Here the
  keepalive request is in flight when the user disconnects; its timeout fires, the
  keepalive callback's catch branch calls connectToOBS(true), which turns auto-reconnect
  on again and creates a socket, and the close event of the disconnected socket then
  schedules a reconnect.
\<close>

lemma reconnect_after_disconnect:
  "autoReconnect (run ready [Fire 1, DISCONNECT_OBS, Fire 2, Resume 0, SocketClose 0]) \<and>
   timers (run ready [Fire 1, DISCONNECT_OBS, Fire 2, Resume 0, SocketClose 0]) =
     [Timer 3 2000 False ReconnectCb] \<and>
   sockets (run ready [Fire 1, DISCONNECT_OBS, Fire 2, Resume 0, SocketClose 0]) =
     [CLOSED, CONNECTING]"
  by (simp add: ready_def connected_def model_defs)

subsection \<open>Reconnection\<close>

lemma reconnectDelays_simps [simp]:
  "reconnectDelays [] = []"
  "reconnectDelays (x # xs) = reconnectDelay x @ reconnectDelays xs"
  "reconnectDelays (xs @ ys) = reconnectDelays xs @ reconnectDelays ys"
  by (simp_all add: reconnectDelays_def)

lemma effects_stopKeepAlive [simp]: "effects (stopKeepAlive w) = effects w"
  by (simp add: stopKeepAlive_def clearInterval_def split: option.splits)

lemma effects_onclose:
  "effects (onclose w) =
     effects w @ (if isConnected w then [StatusUpdate False False (Some ''Disconnected'')] else [])
       @ (if autoReconnect w then [LogReconnecting (min ((reconnectAttempts w + 1) * 2000) 30000)] else [])"
  by (simp add: onclose_def Let_def stopKeepAlive_def clearInterval_def broadcastStatus_def emit_def
      setTimeout_def split: option.splits)

lemma reconnectAttempts_onclose:
  "reconnectAttempts (onclose w) = (if autoReconnect w then reconnectAttempts w + 1 else reconnectAttempts w)"
  by (simp add: onclose_def Let_def stopKeepAlive_def clearInterval_def broadcastStatus_def emit_def
      setTimeout_def split: option.splits)

lemma autoReconnect_onclose [simp]: "autoReconnect (onclose w) = autoReconnect w"
  by (simp add: onclose_def Let_def stopKeepAlive_def clearInterval_def broadcastStatus_def emit_def
      setTimeout_def split: option.splits)

lemma reconnectDelays_onclose:
  "reconnectDelays (effects (onclose w)) =
     reconnectDelays (effects w) @
       (if autoReconnect w then [min ((reconnectAttempts w + 1) * 2000) 30000] else [])"
  by (simp add: effects_onclose)

lemma onclose_funpow:
  assumes "autoReconnect w"
  shows "autoReconnect ((onclose ^^ n) w) \<and>
         reconnectAttempts ((onclose ^^ n) w) = reconnectAttempts w + n \<and>
         reconnectDelays (effects ((onclose ^^ n) w)) =
           reconnectDelays (effects w) @
             map (\<lambda>k. min ((reconnectAttempts w + k) * 2000) 30000) [1..<Suc n]"
proof (induction n)
  case 0
  with assms show ?case by simp
next
  case (Suc n)
  then show ?case
    by (simp add: reconnectDelays_onclose reconnectAttempts_onclose)
qed

lemma reconnectAttempts_onopen [simp]: "reconnectAttempts (onopen w) = 0"
  by (simp add: onopen_def broadcastStatus_def emit_def)

lemma autoReconnect_onopen [simp]: "autoReconnect (onopen w) = autoReconnect w"
  by (simp add: onopen_def broadcastStatus_def emit_def)

lemma reconnectDelays_onopen [simp]: "reconnectDelays (effects (onopen w)) = reconnectDelays (effects w)"
  by (simp add: onopen_def broadcastStatus_def emit_def)

lemma rc_update [simp]:
  "rc (w\<lparr>isConnected := a\<rparr>) = rc w"
  "rc (w\<lparr>isAuthenticated := a\<rparr>) = rc w"
  "rc (w\<lparr>obsWebSocket := b\<rparr>) = rc w"
  "rc (w\<lparr>storage := d\<rparr>) = rc w"
  "rc (w\<lparr>sockets := e\<rparr>) = rc w"
  "rc (w\<lparr>tasks := g\<rparr>) = rc w"
  "rc (w\<lparr>timers := h\<rparr>) = rc w"
  "rc (w\<lparr>pendingRequests := p\<rparr>) = rc w"
  "rc (w\<lparr>messageRequestId := n\<rparr>) = rc w"
  "rc (w\<lparr>keepAliveInterval := k\<rparr>) = rc w"
  "rc (w\<lparr>nextTimer := n\<rparr>) = rc w"
  by (simp_all add: rc_def)

lemma rc_emit: "reconnectDelay e = [] \<Longrightarrow> rc (emit w e) = rc w"
  by (simp add: rc_def emit_def)

lemma rc_broadcastStatus [simp]: "rc (broadcastStatus w e) = rc w"
  by (simp add: broadcastStatus_def rc_emit)

lemma rc_stopKeepAlive [simp]: "rc (stopKeepAlive w) = rc w"
  by (simp add: stopKeepAlive_def clearInterval_def split: option.splits)

lemma rc_startKeepAlive [simp]: "rc (startKeepAlive w) = rc w"
proof -
  have "rc (startKeepAlive w) = rc (stopKeepAlive w)"
    by (simp add: startKeepAlive_def setInterval_def Let_def rc_emit)
  then show ?thesis by simp
qed

lemma settledOpen_refl [simp]: "settledOpen x x"
  by (simp add: settledOpen_def split: prod.splits)

lemma settledOpen_trans: "settledOpen x y \<Longrightarrow> settledOpen y z \<Longrightarrow> settledOpen x z"
  by (auto simp: settledOpen_def split: prod.splits)

lemma settledOpen_connectToOBS: "settledOpen (rc w) (rc (connectToOBS (w\<lparr>reconnectAttempts := 0\<rparr>) True))"
  by (simp add: settledOpen_def rc_def connectToOBS_def Let_def)

lemma settledOpen_reject: "settledOpen (rc w) (rc (reject w i a e))"
proof (cases a)
  case KeepAlive
  have "rc (emit w (Reject i e)) = rc w" by (simp add: rc_emit)
  with settledOpen_connectToOBS [of "emit w (Reject i e)"] KeepAlive show ?thesis
    by (simp add: reject_def Let_def)
next
  case Caller
  then show ?thesis by (simp add: reject_def Let_def rc_emit)
qed

lemma settledOpen_handleRequestResponse: "settledOpen (rc w) (rc (handleRequestResponse w i st d))"
proof -
  have "settledOpen (rc w) (rc (reject (w\<lparr>pendingRequests := p\<rparr>) i a e))" for p a e
    using settledOpen_reject [of "w\<lparr>pendingRequests := p\<rparr>" i a e] by simp
  then show ?thesis
    by (simp add: handleRequestResponse_def Let_def resolve_def rc_emit split: option.splits)
qed

lemma settledOpen_handleOBSMessage: "settledOpen (rc w) (rc (handleOBSMessage w i data))"
proof (cases data)
  case None
  then show ?thesis by (simp add: handleOBSMessage_def)
next
  case (Some msg)
  have e: "rc (emit w (LogReceived i msg)) = rc w" by (simp add: rc_emit)
  from settledOpen_handleRequestResponse [of "emit w (LogReceived i msg)"] e Some show ?thesis
    by (cases msg) (simp_all add: handleOBSMessage_def Let_def)
qed

lemma settledOpen_frames: "settledOpen (rc w) (rc (run w (map (SocketMessage i) ds)))"
proof (induction ds arbitrary: w)
  case Nil
  show ?case by simp
next
  case (Cons d ds)
  have "settledOpen (rc w) (rc (step w (SocketMessage i d)))"
    using settledOpen_handleOBSMessage [of w i d] by (simp add: step_def)
  from settledOpen_trans [OF this Cons.IH] show ?case by simp
qed

lemma close_after_open:
  assumes "autoReconnect w"
  shows "reconnectDelays (effects (onclose (run (onopen w) (map (SocketMessage i) ds)))) =
           reconnectDelays (effects w) @ [2000]"
proof -
  let ?w = "run (onopen w) (map (SocketMessage i) ds)"
  from settledOpen_frames [of "onopen w" i ds] assms
  have "autoReconnect ?w" "reconnectAttempts ?w = 0" "reconnectDelays (effects ?w) = reconnectDelays (effects w)"
    by (simp_all add: settledOpen_def rc_def)
  then show ?thesis
    by (simp add: reconnectDelays_onclose)
qed

lemma reconnectAttempts_connectToOBS_False: "reconnectAttempts (connectToOBS w False) = reconnectAttempts w"
  by (simp add: connectToOBS_def)

lemma reconnectAttempts_connectToOBS_True:
  "\<not> socketOpen w \<Longrightarrow> reconnectAttempts (connectToOBS w True) = 0"
  by (simp add: connectToOBS_def)

lemma reconnectAttempts_disconnectFromOBS: "reconnectAttempts (disconnectFromOBS w) = 0"
  by (simp add: disconnectFromOBS_def Let_def stopKeepAlive_def clearInterval_def socket_close_def emit_def
      split: option.splits)

lemma reconnectAttempts_reject: "reconnectAttempts (reject w q KeepAlive err) = 0"
  by (simp add: reject_def connectToOBS_def Let_def emit_def)

lemma reconnectAttempts_keepAliveTick:
  "\<not> (isAuthenticated w \<and> socketOpen w) \<Longrightarrow> autoReconnect w \<Longrightarrow> \<not> isConnected w \<Longrightarrow>
     reconnectAttempts (keepAliveTick w) = 0"
  by (auto simp: keepAliveTick_def connectToOBS_def Let_def)

text \<open>Every handler but the close handler is calm.\<close>

lemma calm_refl [simp]: "calm x x"
  by (simp add: calm_def split: prod.splits)

lemma calm_trans: "calm x y \<Longrightarrow> calm y z \<Longrightarrow> calm x z"
  by (auto simp: calm_def split: prod.splits)

lemma calm_reset [simp]: "calm (rc w) (rc (w\<lparr>reconnectAttempts := 0\<rparr>))"
  by (simp add: calm_def rc_def)

lemma calm_autoReconnect [simp]: "calm (rc w) (rc (w\<lparr>autoReconnect := a\<rparr>))"
  by (simp add: calm_def rc_def)

lemma calm_connectToOBS [simp]: "calm (rc w) (rc (connectToOBS w u))"
  by (simp add: calm_def rc_def connectToOBS_def Let_def)

lemma calm_connectToOBS_resume [simp]: "calm (rc w) (rc (connectToOBS_resume w b))"
  by (simp add: connectToOBS_resume_def)

lemma calm_onopen [simp]: "calm (rc w) (rc (onopen w))"
  by (simp add: calm_def rc_def)

lemma calm_onerror [simp]: "calm (rc w) (rc (onerror w))"
  by (simp add: onerror_def)

lemma rc_socket_close [simp]: "rc (socket_close w i) = rc w"
  by (simp add: socket_close_def rc_emit)

lemma rc_setTimeout [simp]: "rc (setTimeout w ms cb) = rc w"
  by (simp add: setTimeout_def)

lemma calm_disconnectFromOBS [simp]: "calm (rc w) (rc (disconnectFromOBS w))"
proof -
  have "rc (disconnectFromOBS w) = rc (w\<lparr>autoReconnect := False, reconnectAttempts := 0\<rparr>)"
    by (simp add: disconnectFromOBS_def Let_def split: option.splits)
  then show ?thesis by (simp add: calm_def rc_def)
qed

lemma calm_reject: "calm (rc w) (rc (reject w q a err))"
proof (cases a)
  case KeepAlive
  have "rc (emit w (Reject q err)) = rc w" by (simp add: rc_emit)
  then have "calm (rc w) (rc (emit w (Reject q err)\<lparr>reconnectAttempts := 0\<rparr>))"
    using calm_reset [of "emit w (Reject q err)"] by simp
  from calm_trans [OF this calm_connectToOBS] KeepAlive show ?thesis
    by (simp add: reject_def Let_def)
next
  case Caller
  then show ?thesis by (simp add: reject_def Let_def rc_emit)
qed

lemma calm_sendRequest [simp]: "calm (rc w) (rc (sendRequest w a t d))"
proof -
  have "calm (rc w) (rc (reject w' q a err))" if "rc w' = rc w" for w' q err
    using calm_reject [of w' q a err] that by simp
  then show ?thesis
    by (simp add: sendRequest_def Let_def sendToOBS_def rc_emit split: option.splits)
qed

lemma calm_requestTimeout [simp]: "calm (rc w) (rc (requestTimeout w q a))"
  using calm_reject [of "w\<lparr>pendingRequests := (pendingRequests w)(q := None)\<rparr>" q a]
  by (simp add: requestTimeout_def)

lemma calm_handleRequestResponse: "calm (rc w) (rc (handleRequestResponse w q st d))"
proof -
  have "calm (rc w) (rc (reject (w\<lparr>pendingRequests := p\<rparr>) q a e))" for p a e
    using calm_reject [of "w\<lparr>pendingRequests := p\<rparr>" q a e] by simp
  then show ?thesis
    by (simp add: handleRequestResponse_def Let_def resolve_def rc_emit split: option.splits)
qed

lemma calm_handleOBSMessage [simp]: "calm (rc w) (rc (handleOBSMessage w i data))"
proof (cases data)
  case None
  then show ?thesis by (simp add: handleOBSMessage_def)
next
  case (Some msg)
  have e: "rc (emit w (LogReceived i msg)) = rc w" by (simp add: rc_emit)
  from calm_handleRequestResponse [of "emit w (LogReceived i msg)"] e Some show ?thesis
    by (cases msg) (simp_all add: handleOBSMessage_def Let_def)
qed

lemma rc_handleHello [simp]: "rc (handleHello w auth) = rc w"
  by (simp add: handleHello_def Let_def sendToOBS_def rc_emit split: option.splits sum.splits)

lemma calm_keepAliveTick [simp]: "calm (rc w) (rc (keepAliveTick w))"
  using calm_trans [OF calm_reset calm_connectToOBS, of w True]
  by (simp add: keepAliveTick_def)

lemma calm_fire [simp]: "calm (rc w) (rc (fire w i))"
proof (cases "find (\<lambda>t. timerId t = i) (timers w)")
  case None
  then show ?thesis by (simp add: fire_def)
next
  case (Some t)
  have "calm (rc w') (rc (runCallback w' cb))" for w' cb
    by (cases cb) (simp_all add: runCallback_def)
  from this [of "if repeats t then w else w\<lparr>timers := filter (\<lambda>t. timerId t \<noteq> i) (timers w)\<rparr>" "callback t"]
  show ?thesis
    using Some by (simp add: fire_def split: if_splits)
qed

lemma calm_resume [simp]: "calm (rc w) (rc (resume w k b))"
proof -
  have "calm (rc w') (rc (runTask w' t b))" for w' t
  proof (cases t)
    case StartupTask
    from calm_trans [OF calm_autoReconnect calm_connectToOBS, of w' True False] StartupTask
    show ?thesis by (simp add: runTask_def)
  qed (simp_all add: runTask_def)
  from this [of "w\<lparr>tasks := take k (tasks w) @ drop (Suc k) (tasks w)\<rparr>" "tasks w ! k"]
  show ?thesis by (simp add: resume_def)
qed

lemma calm_step:
  assumes "\<not> (closes w e \<and> autoReconnect w)"
  shows "calm (rc w) (rc (step w e))"
proof (cases e)
  case DISCONNECT_OBS
  from calm_disconnectFromOBS [of "w\<lparr>storage := storage w\<lparr>storedAutoReconnect := False\<rparr>\<rparr>"]
  show ?thesis using DISCONNECT_OBS by (simp add: step_def)
next
  case (SAVE_SETTINGS u p d)
  then show ?thesis by (simp add: step_def Let_def)
next
  case (SocketOpen i)
  from calm_onopen [of "w\<lparr>sockets := (sockets w)[i := OPEN]\<rparr>"] SocketOpen show ?thesis
    by (simp add: step_def)
next
  case (SocketClose i)
  show ?thesis
  proof (cases "readyStateOf w i \<noteq> CLOSED")
    case True
    with assms SocketClose have "\<not> autoReconnect w" by simp
    then have "rc (onclose (w\<lparr>sockets := (sockets w)[i := CLOSED]\<rparr>)) = rc w"
      by (simp add: rc_def reconnectAttempts_onclose reconnectDelays_onclose)
    with SocketClose True show ?thesis by (simp add: step_def)
  next
    case False
    with SocketClose show ?thesis by (simp add: step_def)
  qed
qed (simp_all add: step_def)

lemma close_step:
  assumes "closes w e" "autoReconnect w"
  shows "reconnectAttempts (step w e) = reconnectAttempts w + 1"
    "reconnectDelays (effects (step w e)) =
       reconnectDelays (effects w) @ [min ((reconnectAttempts w + 1) * 2000) 30000]"
    "timers (step w e) =
       timers (stopKeepAlive w) @
         [Timer (nextTimer w) (min ((reconnectAttempts w + 1) * 2000) 30000) False ReconnectCb]"
proof -
  from assms(1) obtain i where e: "e = SocketClose i" "readyStateOf w i \<noteq> CLOSED"
    by (cases e) simp_all
  let ?w = "w\<lparr>sockets := (sockets w)[i := CLOSED]\<rparr>"
  have s: "step w e = onclose ?w" using e by (simp add: step_def)
  have t: "timers (stopKeepAlive ?w) = timers (stopKeepAlive w)"
    by (simp add: stopKeepAlive_def clearInterval_def split: option.splits)
  show "reconnectAttempts (step w e) = reconnectAttempts w + 1"
    using assms(2) by (simp add: s reconnectAttempts_onclose)
  show "reconnectDelays (effects (step w e)) =
       reconnectDelays (effects w) @ [min ((reconnectAttempts w + 1) * 2000) 30000]"
    using assms(2) by (simp add: s reconnectDelays_onclose)
  show "timers (step w e) =
       timers (stopKeepAlive w) @
         [Timer (nextTimer w) (min ((reconnectAttempts w + 1) * 2000) 30000) False ReconnectCb]"
    using assms(2) by (simp add: s timers_onclose t)
qed

lemma ramp_append:
  "ramp p (ds @ [d]) = (ramp p ds \<and> (d = 2000 \<or> d = min (last (p # ds) + 2000) 30000))"
  by (induction ds arbitrary: p) auto

lemma ramp_inv_step:
  assumes "ramp_inv (rc w)"
  shows "ramp_inv (rc (step w e))"
proof (cases "closes w e \<and> autoReconnect w")
  case True
  then have c: "closes w e" "autoReconnect w" by simp_all
  define ds where "ds = reconnectDelays (effects w)"
  define n where "n = reconnectAttempts w"
  define d where "d = min ((n + 1) * 2000) (30000::nat)"
  from assms have r: "ramp 0 ds" and l: "n = 0 \<or> last (0 # ds) = min (n * 2000) 30000"
    by (simp_all add: ramp_inv_def rc_def ds_def n_def)
  from l have "d = 2000 \<or> d = min (last (0 # ds) + 2000) 30000"
  proof
    assume "n = 0"
    then show ?thesis by (simp add: d_def)
  next
    assume "last (0 # ds) = min (n * 2000) 30000"
    then have "d = min (last (0 # ds) + 2000) 30000"
      unfolding d_def by (simp only:) simp
    then show ?thesis ..
  qed
  with r have "ramp 0 (ds @ [d])" by (simp only: ramp_append simp_thms)
  moreover have "last (0 # (ds @ [d])) = min (Suc n * 2000) 30000"
    by (simp add: d_def)
  moreover have "rc (step w e) = (autoReconnect (step w e), Suc n, ds @ [d])"
    using close_step(1,2) [OF c] by (simp add: rc_def ds_def n_def d_def)
  ultimately show ?thesis
    by (simp only: ramp_inv_def prod.case) simp
next
  case False
  from calm_step [OF False] assms show ?thesis
    by (auto simp: calm_def ramp_inv_def rc_def)
qed

lemma ramp_inv_run:
  assumes "ramp_inv (rc w)"
  shows "ramp_inv (rc (run w es))"
  using assms by (induction es arbitrary: w) (simp_all add: ramp_inv_step)

lemma ramp_inv_init: "ramp_inv (rc (init st))"
  by (simp add: ramp_inv_def rc_def init_def)


lemma ramp_shift:
  "f 1 # map (\<lambda>k. f (Suc k)) [1..<Suc m] = map f [1..<Suc (Suc m)]"
proof -
  have "[1..<Suc (Suc m)] = 1 # map Suc [1..<Suc m]"
    by (simp add: map_Suc_upt upt_conv_Cons del: upt_Suc)
  then show ?thesis by (simp add: comp_def del: upt_Suc)
qed

lemma steady_run:
  assumes "steady w es"
  shows "reconnectAttempts w \<le> reconnectAttempts (run w es) \<and>
         reconnectDelays (effects (run w es)) =
           reconnectDelays (effects w) @
             map (\<lambda>k. min ((reconnectAttempts w + k) * 2000) 30000)
               [1..<Suc (reconnectAttempts (run w es) - reconnectAttempts w)]"
  using assms
proof (induction es arbitrary: w)
  case Nil
  show ?case by simp
next
  case (Cons e es)
  let ?w = "step w e"
  from Cons.prems have s: "reconnectAttempts w \<le> reconnectAttempts ?w" "steady ?w es"
    by simp_all
  from Cons.IH [OF s(2)]
  have ih: "reconnectAttempts ?w \<le> reconnectAttempts (run ?w es)"
    "reconnectDelays (effects (run ?w es)) =
       reconnectDelays (effects ?w) @
         map (\<lambda>k. min ((reconnectAttempts ?w + k) * 2000) 30000)
           [1..<Suc (reconnectAttempts (run ?w es) - reconnectAttempts ?w)]"
    by simp_all
  show ?case
  proof (cases "closes w e \<and> autoReconnect w")
    case True
    then have c: "closes w e" "autoReconnect w" by simp_all
    define n where "n = reconnectAttempts w"
    define m where "m = reconnectAttempts (run ?w es) - Suc n"
    have n': "reconnectAttempts ?w = Suc n"
      using close_step(1) [OF c] by (simp add: n_def)
    with ih(1) have N: "reconnectAttempts (run ?w es) = Suc n + m"
      by (simp add: m_def)
    have "reconnectDelays (effects (run ?w es)) =
            reconnectDelays (effects w) @
              (min ((n + 1) * 2000) 30000 #
               map (\<lambda>k. min ((n + Suc k) * 2000) 30000) [1..<Suc m])"
      using ih(2) close_step(2) [OF c] by (simp add: n' N n_def [symmetric] del: upt_Suc)
    also have "min ((n + 1) * 2000) 30000 # map (\<lambda>k. min ((n + Suc k) * 2000) 30000) [1..<Suc m] =
               map (\<lambda>k. min ((n + k) * 2000) 30000) [1..<Suc (Suc m)]"
      by (rule ramp_shift [of "\<lambda>k. min ((n + k) * 2000) 30000" m])
    finally show ?thesis
      by (simp add: N n_def [symmetric] del: upt_Suc)
  next
    case False
    from calm_step [OF False]
    have "reconnectDelays (effects ?w) = reconnectDelays (effects w)"
      "reconnectAttempts ?w = reconnectAttempts w \<or> reconnectAttempts ?w = 0"
      by (simp_all add: calm_def rc_def)
    with s(1) have "reconnectDelays (effects ?w) = reconnectDelays (effects w)"
      "reconnectAttempts ?w = reconnectAttempts w"
      by auto
    with ih show ?thesis by simp
  qed
qed

text \<open>
  Claim C4, as the code has it. A close event with auto-reconnect enabled increments the
  counter, announces the delay min(counter * 2 s, 30 s) and schedules the reconnect after
  it; every other event announces no delay and leaves the counter alone or resets it to
  zero. So along every run from start-up each announced delay is 2 s or the delay before
  it plus 2 s, capped at 30 s, and a counter that is not zero matches the last delay;
  closes with nothing in between announce 2 s, 4 s, 6 s, ... capped at 30 s. The counter
  is reset to zero by the open handler (before the handshake, not when Identified
  arrives: after an open, whatever frames arrive, the next close announces 2 s), by
  explicit disconnect, by a user-initiated connect that finds no open socket, and by the
  keepalive callback when its request is rejected or it finds the client disconnected. A
  reconnect attempt itself leaves the counter alone. Along any events that never lower
  the counter, the delays announced are the next values of 2 s, 4 s, 6 s, ... capped at
  30 s, as many as the counter has grown.
\<close>

theorem reconnect_backoff:
  "(if closes w e \<and> autoReconnect w
    then reconnectAttempts (step w e) = reconnectAttempts w + 1 \<and>
         reconnectDelays (effects (step w e)) =
           reconnectDelays (effects w) @ [min ((reconnectAttempts w + 1) * 2000) 30000] \<and>
         timers (step w e) =
           timers (stopKeepAlive w) @
             [Timer (nextTimer w) (min ((reconnectAttempts w + 1) * 2000) 30000) False ReconnectCb]
    else reconnectDelays (effects (step w e)) = reconnectDelays (effects w) \<and>
         (reconnectAttempts (step w e) = reconnectAttempts w \<or> reconnectAttempts (step w e) = 0)) \<and>
   ramp 0 (reconnectDelays (effects (run (init st) es))) \<and>
   (reconnectAttempts (run (init st) es) = 0 \<or>
    last (0 # reconnectDelays (effects (run (init st) es))) =
      min (reconnectAttempts (run (init st) es) * 2000) 30000) \<and>
   (autoReconnect w \<longrightarrow>
      reconnectAttempts (onclose w) = reconnectAttempts w + 1 \<and>
      timers (onclose w) =
        timers (stopKeepAlive w) @
          [Timer (nextTimer w) (min ((reconnectAttempts w + 1) * 2000) 30000) False ReconnectCb] \<and>
      reconnectDelays (effects ((onclose ^^ n) w)) =
        reconnectDelays (effects w) @
          map (\<lambda>k. min ((reconnectAttempts w + k) * 2000) 30000) [1..<Suc n] \<and>
      reconnectDelays (effects (onclose (run (onopen w) (map (SocketMessage i) ds)))) =
        reconnectDelays (effects w) @ [2000]) \<and>
   reconnectAttempts (onopen w) = 0 \<and>
   reconnectAttempts (disconnectFromOBS w) = 0 \<and>
   (\<not> socketOpen w \<longrightarrow> reconnectAttempts (connectToOBS w True) = 0) \<and>
   reconnectAttempts (reject w q KeepAlive err) = 0 \<and>
   (\<not> (isAuthenticated w \<and> socketOpen w) \<and> autoReconnect w \<and> \<not> isConnected w \<longrightarrow>
      reconnectAttempts (keepAliveTick w) = 0) \<and>
   reconnectAttempts (connectToOBS w False) = reconnectAttempts w \<and>
   (steady w fs \<longrightarrow>
      reconnectDelays (effects (run w fs)) =
        reconnectDelays (effects w) @
          map (\<lambda>k. min ((reconnectAttempts w + k) * 2000) 30000)
            [1..<Suc (reconnectAttempts (run w fs) - reconnectAttempts w)])"
proof -
  have a: "if closes w e \<and> autoReconnect w
    then reconnectAttempts (step w e) = reconnectAttempts w + 1 \<and>
         reconnectDelays (effects (step w e)) =
           reconnectDelays (effects w) @ [min ((reconnectAttempts w + 1) * 2000) 30000] \<and>
         timers (step w e) =
           timers (stopKeepAlive w) @
             [Timer (nextTimer w) (min ((reconnectAttempts w + 1) * 2000) 30000) False ReconnectCb]
    else reconnectDelays (effects (step w e)) = reconnectDelays (effects w) \<and>
         (reconnectAttempts (step w e) = reconnectAttempts w \<or> reconnectAttempts (step w e) = 0)"
  proof (cases "closes w e \<and> autoReconnect w")
    case True
    with close_step [of w e] show ?thesis by simp
  next
    case False
    with calm_step [OF False] show ?thesis
      by (simp add: calm_def rc_def)
  qed
  have "ramp_inv (rc (run (init st) es))"
    by (rule ramp_inv_run [OF ramp_inv_init])
  then have b: "ramp 0 (reconnectDelays (effects (run (init st) es)))"
    "reconnectAttempts (run (init st) es) = 0 \<or>
     last (0 # reconnectDelays (effects (run (init st) es))) =
       min (reconnectAttempts (run (init st) es) * 2000) 30000"
    by (simp_all add: ramp_inv_def rc_def)
  have c: "autoReconnect w \<longrightarrow>
      reconnectAttempts (onclose w) = reconnectAttempts w + 1 \<and>
      timers (onclose w) =
        timers (stopKeepAlive w) @
          [Timer (nextTimer w) (min ((reconnectAttempts w + 1) * 2000) 30000) False ReconnectCb] \<and>
      reconnectDelays (effects ((onclose ^^ n) w)) =
        reconnectDelays (effects w) @
          map (\<lambda>k. min ((reconnectAttempts w + k) * 2000) 30000) [1..<Suc n] \<and>
      reconnectDelays (effects (onclose (run (onopen w) (map (SocketMessage i) ds)))) =
        reconnectDelays (effects w) @ [2000]"
    using onclose_funpow [of w n] close_after_open [of w i ds]
    by (simp add: reconnectAttempts_onclose timers_onclose)
  have d: "\<not> (isAuthenticated w \<and> socketOpen w) \<and> autoReconnect w \<and> \<not> isConnected w \<longrightarrow>
      reconnectAttempts (keepAliveTick w) = 0"
    using reconnectAttempts_keepAliveTick [of w] by blast
  have f: "\<not> socketOpen w \<longrightarrow> reconnectAttempts (connectToOBS w True) = 0"
    by (simp add: reconnectAttempts_connectToOBS_True)
  have g: "steady w fs \<longrightarrow>
      reconnectDelays (effects (run w fs)) =
        reconnectDelays (effects w) @
          map (\<lambda>k. min ((reconnectAttempts w + k) * 2000) 30000)
            [1..<Suc (reconnectAttempts (run w fs) - reconnectAttempts w)]"
    using steady_run [of w fs] by blast
  from a b c d f g reconnectAttempts_onopen [of w] reconnectAttempts_disconnectFromOBS [of w]
    reconnectAttempts_reject [of w q err] reconnectAttempts_connectToOBS_False [of w]
  show ?thesis by blast
qed

text \<open>
  The theorem at the connected client: one close; seventeen closes in a row; three closes
  followed by an open, a completed handshake and a close; a run in which the keepalive
  request, in flight when the socket drops, times out between the second and the third
  close and resets the counter; and three reconnects that fail one after the other.
\<close>

theorem reconnect_backoff_witness:
  "closes connected (SocketClose 0) \<and> autoReconnect connected \<and>
   reconnectAttempts (step connected (SocketClose 0)) = 1 \<and>
   reconnectDelays (effects (step connected (SocketClose 0))) = [2000] \<and>
   timers (step connected (SocketClose 0)) = [Timer 1 2000 False ReconnectCb] \<and>
   reconnectDelays (effects ((onclose ^^ 17) connected)) =
     [2000, 4000, 6000, 8000, 10000, 12000, 14000, 16000, 18000, 20000, 22000, 24000,
      26000, 28000, 30000, 30000, 30000] \<and>
   reconnectDelays
     (effects (onclose (run (onopen ((onclose ^^ 3) connected))
        (map (SocketMessage 0) [Some (Hello None), Some Identified])))) = [2000, 4000, 6000, 2000] \<and>
   reconnectDelays (effects (run (init st0) keepaliveReset)) = [2000, 4000, 2000] \<and>
   ramp 0 [2000, 4000, 2000] \<and>
   socketOpen connected \<and>
   reconnectAttempts (connectToOBS (step connected (SocketClose 0)) True) = 0 \<and>
   reconnectAttempts (keepAliveTick (step connected (SocketClose 0))) = 0 \<and>
   steady connected failingReconnects \<and>
   reconnectDelays (effects (run connected failingReconnects)) = [2000, 4000, 6000]"
proof -
  let ?w = "connected"
  let ?c = "step connected (SocketClose 0)"
  have a: "autoReconnect ?w" "closes ?w (SocketClose 0)" "socketOpen ?w"
    by (simp_all add: connected_def model_defs)
  have r: "reconnectAttempts ?w = 0" "reconnectDelays (effects ?w) = []"
    "timers (stopKeepAlive ?w) = []" "nextTimer ?w = 1"
    by (simp_all add: connected_def model_defs reconnectDelays_def)
  have s: "\<not> socketOpen ?c" "\<not> isAuthenticated ?c" "autoReconnect ?c" "\<not> isConnected ?c"
    by (simp_all add: connected_def model_defs)
  have u: "[1..<18] = [1, 2, 3, 4, 5, 6, 7, 8, 9, 10, 11, 12, 13, 14, 15, 16, 17]"
    by (simp add: upt_rec)
  have v: "[1..<4] = [1, 2, 3]"
    by (simp add: upt_rec)
  have k: "reconnectDelays (effects (run (init st0) keepaliveReset)) = [2000, 4000, 2000]"
    by (simp add: keepaliveReset_def model_defs reconnectDelays_def)
  have b: "autoReconnect ((onclose ^^ 3) ?w)"
    using onclose_funpow [OF a(1), of 3] by simp
  from reconnect_backoff [of ?w "SocketClose 0" st0 keepaliveReset 17 0 "[]"] a r u k
  have c: "reconnectAttempts ?c = 1" "reconnectDelays (effects ?c) = [2000]"
    "timers ?c = [Timer 1 2000 False ReconnectCb]"
    "reconnectDelays (effects ((onclose ^^ 17) ?w)) =
         [2000, 4000, 6000, 8000, 10000, 12000, 14000, 16000, 18000, 20000, 22000, 24000,
          26000, 28000, 30000, 30000, 30000]"
    "ramp 0 [2000, 4000, 2000]"
    by simp_all
  from reconnect_backoff [of ?w "SocketClose 0" st0 "[]" 3 0 "[]"] a r v
  have d: "reconnectDelays (effects ((onclose ^^ 3) ?w)) = [2000, 4000, 6000]"
    by simp
  from reconnect_backoff [of "(onclose ^^ 3) ?w" "SocketClose 0" st0 "[]" 0 0 "[Some (Hello None), Some Identified]"] b d
  have e: "reconnectDelays (effects (onclose (run (onopen ((onclose ^^ 3) ?w))
          (map (SocketMessage 0) [Some (Hello None), Some Identified])))) = [2000, 4000, 6000, 2000]"
    by simp
  from reconnect_backoff [of ?c "SocketClose 0" st0 "[]" 0 0 "[]"] s
  have f: "reconnectAttempts (connectToOBS ?c True) = 0" "reconnectAttempts (keepAliveTick ?c) = 0"
    by simp_all
  have g: "steady ?w failingReconnects" "reconnectAttempts (run ?w failingReconnects) = 3"
    by (simp_all add: failingReconnects_def connected_def model_defs)
  from reconnect_backoff [of ?w "SocketClose 0" st0 "[]" 0 0 "[]" _ _ failingReconnects] g r v
  have h: "reconnectDelays (effects (run ?w failingReconnects)) = [2000, 4000, 6000]"
    by simp
  from a c e k f g(1) h show ?thesis by simp
qed

text \<open>
  Against claim C4 as stated: two failures in a row with no Ready transition between
  them. The second socket opens, receives Hello and is closed before Identified arrives;
  the second delay is 2 s again, not 4 s, because the open has reset the counter.
\<close>

theorem reset_without_ready:
  "reconnectDelays (effects (run (init st0) closedBeforeReady)) = [2000, 2000] \<and>
   filter identifiedReceived (effects (run (init st0) closedBeforeReady)) = []"
  by (simp add: closedBeforeReady_def model_defs reconnectDelays_def)

subsection \<open>The handshake\<close>

lemma licensed_append:
  "licensed x (xs @ ys) = (licensed x xs \<and> licensed (foldl advance x xs) ys)"
  by (induction xs arbitrary: x) simp_all

text \<open>The order per connection implies the order of the whole log.\<close>

lemma attempt_order_licensed:
  "attempt_order (gs, k) es \<Longrightarrow> licensed (length gs, k) es"
proof (induction "(gs, k)" es arbitrary: gs k rule: attempt_order.induct)
  case (4 gs k s a es)
  from 4(2) have m: "s \<in> set gs" and o: "attempt_order (remove1 s gs, False) es"
    by simp_all
  from 4(1) [OF o] m have "licensed (length gs - 1, False) es"
    by (simp add: length_remove1)
  with length_pos_if_in_set [OF m] show ?case by simp
qed simp_all

lemma admissible_plain: "plain e \<Longrightarrow> admissible x e"
  by (cases "(x, e)" rule: admissible.cases) (simp_all add: plain_def)

lemma fst_advance_plain: "plain e \<Longrightarrow> fst (advance x e) = fst x"
  by (cases "(x, e)" rule: advance.cases) (simp_all add: plain_def)

lemma licensed_plain: "list_all plain new \<Longrightarrow> licensed x new"
  by (induction new arbitrary: x) (simp_all add: admissible_plain)

lemma fst_foldl_plain: "list_all plain new \<Longrightarrow> fst (foldl advance x new) = fst x"
  by (induction new arbitrary: x) (simp_all add: fst_advance_plain)

lemma quiet_refl [simp]: "quiet x x"
  by (cases x) (simp add: quiet_def)

lemma quiet_trans: "quiet x y \<Longrightarrow> quiet y z \<Longrightarrow> quiet x z"
  by (cases x; cases y; cases z) (auto simp: quiet_def)

lemma quiet_app [simp]: "quiet (es, n) (es @ new, m) = (list_all plain new \<and> m = n)"
  by (auto simp: quiet_def)

lemma quiet_same [simp]: "quiet (es, n) (es, m) = (m = n)"
  using quiet_app [of es n "[]" m] by simp

lemma hs_inv_quiet:
  assumes "quiet x y" "hs_inv x"
  shows "hs_inv y"
  using assms
  by (cases x; cases y)
    (auto simp: quiet_def hs_inv_def licensed_append licensed_plain fst_foldl_plain)

lemma plain_simps [simp]:
  "plain (StatusUpdate a b c)"
  "plain (Close i)"
  "plain (Resolve q d)"
  "plain (Reject q err)"
  "plain (LogReconnecting ms)"
  "plain (Send s (Request t q d))"
  by (simp_all add: plain_def)

lemma hs_update [simp]:
  "hs (w\<lparr>isConnected := a\<rparr>) = hs w"
  "hs (w\<lparr>isAuthenticated := a\<rparr>) = hs w"
  "hs (w\<lparr>obsWebSocket := b\<rparr>) = hs w"
  "hs (w\<lparr>reconnectAttempts := c\<rparr>) = hs w"
  "hs (w\<lparr>autoReconnect := a\<rparr>) = hs w"
  "hs (w\<lparr>storage := d\<rparr>) = hs w"
  "hs (w\<lparr>sockets := e\<rparr>) = hs w"
  "hs (w\<lparr>timers := h\<rparr>) = hs w"
  "hs (w\<lparr>pendingRequests := p\<rparr>) = hs w"
  "hs (w\<lparr>messageRequestId := n\<rparr>) = hs w"
  "hs (w\<lparr>keepAliveInterval := k\<rparr>) = hs w"
  "hs (w\<lparr>nextTimer := n\<rparr>) = hs w"
  by (simp_all add: hs_def)

lemmas quiet_defs =
  hs_def emit_def broadcastStatus_def setTimeout_def setInterval_def clearInterval_def
  stopKeepAlive_def socket_close_def Let_def

lemma quiet_broadcastStatus [simp]: "quiet (hs w) (hs (broadcastStatus w e))"
  by (simp add: quiet_defs)

lemma quiet_connectToOBS [simp]: "quiet (hs w) (hs (connectToOBS w u))"
  by (simp add: connectToOBS_def quiet_defs)

lemma quiet_connectToOBS_resume [simp]: "quiet (hs w) (hs (connectToOBS_resume w b))"
  by (simp add: connectToOBS_resume_def quiet_defs)

lemma quiet_onopen [simp]: "quiet (hs w) (hs (onopen w))"
  by (simp add: onopen_def quiet_defs)

lemma quiet_onerror [simp]: "quiet (hs w) (hs (onerror w))"
  by (simp add: onerror_def quiet_defs)

lemma quiet_onclose [simp]: "quiet (hs w) (hs (onclose w))"
  by (simp add: onclose_def quiet_defs split: option.splits)

lemma quiet_disconnectFromOBS [simp]: "quiet (hs w) (hs (disconnectFromOBS w))"
  by (simp add: disconnectFromOBS_def quiet_defs split: option.splits)

lemma quiet_reject [simp]: "quiet (hs w) (hs (reject w i a e))"
  by (cases a) (simp_all add: reject_def connectToOBS_def quiet_defs)

lemma quiet_sendRequest [simp]: "quiet (hs w) (hs (sendRequest w a t d))"
  by (cases a) (simp_all add: sendRequest_def sendToOBS_def reject_def connectToOBS_def quiet_defs
      split: option.splits)

lemma quiet_requestTimeout [simp]: "quiet (hs w) (hs (requestTimeout w i a))"
  by (cases a) (simp_all add: requestTimeout_def reject_def connectToOBS_def quiet_defs)

lemma quiet_handleRequestResponse [simp]: "quiet (hs w) (hs (handleRequestResponse w i st d))"
proof -
  have "quiet (hs w) (hs (reject (w\<lparr>pendingRequests := p\<rparr>) i a e))" for p a e
    using quiet_reject [of "w\<lparr>pendingRequests := p\<rparr>" i a e] by simp
  then show ?thesis
    by (simp add: handleRequestResponse_def resolve_def Let_def split: option.splits)
      (simp add: quiet_defs)
qed

lemma quiet_keepAliveTick [simp]: "quiet (hs w) (hs (keepAliveTick w))"
  using quiet_connectToOBS [of "w\<lparr>reconnectAttempts := 0\<rparr>" True]
  by (simp add: keepAliveTick_def)

lemma quiet_fire [simp]: "quiet (hs w) (hs (fire w i))"
proof (cases "find (\<lambda>t. timerId t = i) (timers w)")
  case None
  then show ?thesis by (simp add: fire_def)
next
  case (Some t)
  have "quiet (hs w') (hs (runCallback w' cb))" for w' cb
    by (cases cb) (simp_all add: runCallback_def)
  from this [of "if repeats t then w else w\<lparr>timers := filter (\<lambda>t. timerId t \<noteq> i) (timers w)\<rparr>" "callback t"]
  show ?thesis
    using Some by (simp add: fire_def split: if_splits)
qed

lemma quiet_handleOBSMessage:
  assumes "data \<noteq> Some Identified" "\<forall>a. data \<noteq> Some (Hello a)"
  shows "quiet (hs w) (hs (handleOBSMessage w i data))"
proof (cases data)
  case None
  then show ?thesis by (simp add: handleOBSMessage_def)
next
  case (Some msg)
  have p: "plain (LogReceived i msg)"
    using assms Some by (cases msg) (simp_all add: plain_def)
  then have e: "quiet (hs w) (hs (emit w (LogReceived i msg)))"
    by (simp add: hs_def emit_def)
  from quiet_trans [OF e quiet_handleRequestResponse] e Some assms show ?thesis
    by (cases msg) (simp_all add: handleOBSMessage_def Let_def)
qed

lemma effects_hello:
  "effects (handleOBSMessage w i (Some (Hello a))) = effects w @ [LogReceived i (Hello a)]"
  "tasks (handleOBSMessage w i (Some (Hello a))) = tasks w @ [HelloTask a]"
  by (simp_all add: handleOBSMessage_def Let_def emit_def)

lemma effects_identified:
  "effects (handleOBSMessage w i (Some Identified)) =
     effects w @ [LogReceived i Identified, LogKeepaliveStarted, StatusUpdate (isConnected w) True None]"
  "tasks (handleOBSMessage w i (Some Identified)) = tasks w"
  by (simp_all add: handleOBSMessage_def Let_def emit_def startKeepAlive_def setInterval_def
      stopKeepAlive_def clearInterval_def broadcastStatus_def split: option.splits)

lemma filter_remove:
  assumes "k < length xs"
  shows "length (filter P (take k xs @ drop (Suc k) xs)) + (if P (xs ! k) then 1 else 0) =
         length (filter P xs)"
proof -
  have "xs = take k xs @ xs ! k # drop (Suc k) xs"
    using assms by (rule id_take_nth_drop)
  then have "length (filter P xs) = length (filter P (take k xs @ xs ! k # drop (Suc k) xs))"
    by simp
  then show ?thesis by simp
qed

lemma quiet_runTask:
  assumes "\<not> isHelloTask t"
  shows "quiet (hs w) (hs (runTask w t b))"
proof (cases t)
  case StartupTask
  with quiet_connectToOBS [of "w\<lparr>autoReconnect := True\<rparr>" False] show ?thesis
    by (simp add: runTask_def)
next
  case SaveSettingsTask
  have "hs (setTimeout w' ms cb) = hs w'" for w' ms cb
    by (simp add: setTimeout_def hs_def)
  with SaveSettingsTask show ?thesis by (simp add: runTask_def)
qed (use assms in \<open>simp_all add: runTask_def\<close>)

lemma quiet_resume:
  assumes "k < length (tasks w) \<longrightarrow> \<not> isHelloTask (tasks w ! k)"
  shows "quiet (hs w) (hs (resume w k b))"
proof (cases "k < length (tasks w)")
  case False
  then show ?thesis by (simp add: resume_def)
next
  case True
  let ?w1 = "w\<lparr>tasks := take k (tasks w) @ drop (Suc k) (tasks w)\<rparr>"
  from True assms have n: "\<not> isHelloTask (tasks w ! k)" by simp
  with filter_remove [OF True, of isHelloTask] have "hs ?w1 = hs w"
    by (simp add: hs_def)
  with quiet_runTask [OF n, of ?w1 b] True show ?thesis
    by (simp add: resume_def)
qed

lemma quiet_step:
  assumes "\<not> special w e"
  shows "quiet (hs w) (hs (step w e))"
proof (cases e)
  case DISCONNECT_OBS
  from quiet_disconnectFromOBS [of "w\<lparr>storage := storage w\<lparr>storedAutoReconnect := False\<rparr>\<rparr>"]
  show ?thesis using DISCONNECT_OBS by (simp add: step_def)
next
  case (SAVE_SETTINGS u p d)
  then show ?thesis by (simp add: step_def Let_def hs_def)
next
  case (Resume k)
  with assms quiet_resume [of k w False] show ?thesis
    by (auto simp: step_def special_def)
next
  case (ResumeThrowing k)
  with assms quiet_resume [of k w True] show ?thesis
    by (auto simp: step_def special_def)
next
  case (SocketOpen i)
  from quiet_onopen [of "w\<lparr>sockets := (sockets w)[i := OPEN]\<rparr>"] SocketOpen show ?thesis
    by (simp add: step_def)
next
  case (SocketMessage i d)
  show ?thesis
  proof (cases "readyStateOf w i = OPEN")
    case True
    with assms SocketMessage have "d \<noteq> Some Identified" "\<forall>a. d \<noteq> Some (Hello a)"
      by (auto simp: special_def)
    from quiet_handleOBSMessage [OF this, of w i] SocketMessage True show ?thesis
      by (simp add: step_def)
  next
    case False
    with SocketMessage show ?thesis by (simp add: step_def)
  qed
next
  case (SocketClose i)
  from quiet_onclose [of "w\<lparr>sockets := (sockets w)[i := CLOSED]\<rparr>"] SocketClose show ?thesis
    by (simp add: step_def)
qed (simp_all add: step_def)


lemma resume_hello:
  assumes "k < length (tasks w)" "tasks w ! k = HelloTask auth"
  shows "\<exists>new. effects (resume w k b) = effects w @ new \<and>
           tasks (resume w k b) = take k (tasks w) @ drop (Suc k) (tasks w) \<and>
           (list_all plain new \<or>
            (\<exists>s a. new = [Send s (Identify a)] \<and> obsWebSocket w = Some s \<and> readyStateOf w s = OPEN))"
  using assms
  by (auto simp: resume_def runTask_def handleHello_def Let_def sendToOBS_def broadcastStatus_def
      emit_def readyStateOf_def split: option.splits sum.splits)

lemma hs_inv_special:
  assumes "hs_inv (hs w)" "special w e"
  shows "hs_inv (hs (step w e))"
proof -
  obtain cr kf where x: "foldl advance (0, False) (effects w) = (cr, kf)"
    by (cases "foldl advance (0, False) (effects w)")
  from assms(2) consider
      (identified) i where "readyStateOf w i = OPEN" "e = SocketMessage i (Some Identified)"
    | (hello) i a where "readyStateOf w i = OPEN" "e = SocketMessage i (Some (Hello a))"
    | (resume) k where "e = Resume k \<or> e = ResumeThrowing k" "k < length (tasks w)" "isHelloTask (tasks w ! k)"
    by (auto simp: special_def)
  then show ?thesis
  proof cases
    case identified
    with x assms(1) show ?thesis
      by (simp add: step_def hs_def hs_inv_def effects_identified licensed_append)
  next
    case hello
    with x assms(1) show ?thesis
      by (simp add: step_def hs_def hs_inv_def effects_hello licensed_append)
  next
    case resume
    from resume(3) obtain auth where t: "tasks w ! k = HelloTask auth"
      by (cases "tasks w ! k") simp_all
    obtain b where s: "step w e = resume w k b"
      using resume(1) by (auto simp: step_def)
    from filter_remove [OF resume(2), of isHelloTask] resume(3)
    have c: "length (filter isHelloTask (tasks w)) =
             Suc (length (filter isHelloTask (take k (tasks w) @ drop (Suc k) (tasks w))))"
      by simp
    from resume_hello [OF resume(2) t, of b] obtain new where
      n: "effects (resume w k b) = effects w @ new"
         "tasks (resume w k b) = take k (tasks w) @ drop (Suc k) (tasks w)"
         "list_all plain new \<or> (\<exists>s a. new = [Send s (Identify a)])"
      by auto
    from n(3) show ?thesis
    proof
      assume "list_all plain new"
      with assms(1) c show ?thesis
        unfolding s
        by (simp add: hs_def hs_inv_def n(1) n(2) licensed_append licensed_plain fst_foldl_plain)
    next
      assume "\<exists>s a. new = [Send s (Identify a)]"
      then obtain s' a where new: "new = [Send s' (Identify a)]" by auto
      from assms(1) have "licensed (0, False) (effects w)"
        "length (filter isHelloTask (tasks w)) \<le> cr"
        by (simp_all add: hs_inv_def hs_def x)
      with c show ?thesis
        unfolding s
        by (simp add: hs_def hs_inv_def n(1) n(2) new licensed_append x)
    qed
  qed
qed

lemma hs_inv_step:
  assumes "hs_inv (hs w)"
  shows "hs_inv (hs (step w e))"
proof (cases "special w e")
  case True
  with assms show ?thesis by (rule hs_inv_special)
next
  case False
  from hs_inv_quiet [OF quiet_step [OF False] assms] show ?thesis .
qed

lemma hs_inv_run:
  assumes "hs_inv (hs w)"
  shows "hs_inv (hs (run w es))"
  using assms by (induction es arbitrary: w) (simp_all add: hs_inv_step)

lemma hs_inv_init: "hs_inv (hs (init st))"
  by (simp add: hs_inv_def hs_def init_def)

text \<open>What one event adds to the log, and which events add a part of the handshake.\<close>

lemma newEffects_append: "effects (step w e) = effects w @ new \<Longrightarrow> newEffects w e = new"
  by (simp add: newEffects_def)

lemma plain_not_handshake:
  assumes "list_all plain new"
  shows "LogKeepaliveStarted \<notin> set new" "Send s (Identify a) \<notin> set new"
  using assms by (auto simp: list_all_iff plain_def)

lemma newEffects_cases:
  "(list_all plain (newEffects w e) \<and> effects (step w e) = effects w @ newEffects w e \<and>
      length (filter isHelloTask (tasks (step w e))) \<le> length (filter isHelloTask (tasks w))) \<or>
   (\<exists>i. e = SocketMessage i (Some Identified) \<and> readyStateOf w i = OPEN \<and>
      effects (step w e) = effects w @ newEffects w e \<and>
      tasks (step w e) = tasks w \<and>
      newEffects w e = [LogReceived i Identified, LogKeepaliveStarted, StatusUpdate (isConnected w) True None]) \<or>
   (\<exists>i b. e = SocketMessage i (Some (Hello b)) \<and> readyStateOf w i = OPEN \<and>
      effects (step w e) = effects w @ newEffects w e \<and>
      tasks (step w e) = tasks w @ [HelloTask b] \<and>
      newEffects w e = [LogReceived i (Hello b)]) \<or>
   (\<exists>k b s a. (e = Resume k \<or> e = ResumeThrowing k) \<and> k < length (tasks w) \<and> tasks w ! k = HelloTask b \<and>
      effects (step w e) = effects w @ newEffects w e \<and>
      tasks (step w e) = take k (tasks w) @ drop (Suc k) (tasks w) \<and>
      newEffects w e = [Send s (Identify a)] \<and> obsWebSocket w = Some s \<and> readyStateOf w s = OPEN)"
proof (cases "special w e")
  case False
  from quiet_step [OF False] obtain new where
    "effects (step w e) = effects w @ new" "list_all plain new"
    "length (filter isHelloTask (tasks (step w e))) = length (filter isHelloTask (tasks w))"
    by (auto simp: quiet_def hs_def)
  then show ?thesis by (simp add: newEffects_append)
next
  case True
  then consider
      (identified) i where "readyStateOf w i = OPEN" "e = SocketMessage i (Some Identified)"
    | (hello) i a where "readyStateOf w i = OPEN" "e = SocketMessage i (Some (Hello a))"
    | (resume) k where "e = Resume k \<or> e = ResumeThrowing k" "k < length (tasks w)" "isHelloTask (tasks w ! k)"
    by (auto simp: special_def)
  then show ?thesis
  proof cases
    case identified
    then have "effects (step w e) = effects w @ [LogReceived i Identified, LogKeepaliveStarted, StatusUpdate (isConnected w) True None]"
      "tasks (step w e) = tasks w"
      by (simp_all add: step_def effects_identified)
    with identified show ?thesis by (simp add: newEffects_append)
  next
    case hello
    then have "effects (step w e) = effects w @ [LogReceived i (Hello a)]"
      "tasks (step w e) = tasks w @ [HelloTask a]"
      by (simp_all add: step_def effects_hello)
    with hello show ?thesis by (simp add: newEffects_append)
  next
    case resume
    from resume(3) obtain auth where t: "tasks w ! k = HelloTask auth"
      by (cases "tasks w ! k") simp_all
    obtain b where s: "step w e = resume w k b"
      using resume(1) by (auto simp: step_def)
    from filter_remove [OF resume(2), of isHelloTask] resume(3)
    have c: "length (filter isHelloTask (take k (tasks w) @ drop (Suc k) (tasks w)))
               \<le> length (filter isHelloTask (tasks w))"
      by simp
    from resume_hello [OF resume(2) t, of b] obtain new where
      n: "effects (step w e) = effects w @ new"
         "tasks (step w e) = take k (tasks w) @ drop (Suc k) (tasks w)"
         "list_all plain new \<or>
          (\<exists>s a. new = [Send s (Identify a)] \<and> obsWebSocket w = Some s \<and> readyStateOf w s = OPEN)"
      unfolding s by blast
    from n(3) show ?thesis
    proof
      assume "list_all plain new"
      with n c show ?thesis by (simp add: newEffects_append)
    next
      assume "\<exists>s a. new = [Send s (Identify a)] \<and> obsWebSocket w = Some s \<and> readyStateOf w s = OPEN"
      with n resume t show ?thesis
        by (simp add: newEffects_append) blast
    qed
  qed
qed

text \<open>
  Claim C5, as the code has it. For every sequence of events from start-up the log is in
  handshake order: every Identify frame sent answers a Hello frame received before it,
  each Hello being answered at most once, and every start of the keepalive comes right
  after the reception of an Identified frame; the suspended continuations of handleHello
  never outnumber the Hello frames not answered yet. Event by event: an Identify frame
  is sent only when a suspended continuation of handleHello is resumed, and goes to the
  socket that is current and open at that moment; such a continuation is suspended only
  by a Hello frame received on an open socket; the keepalive is started only by an
  Identified frame received on an open socket, in the same step. The socket that
  receives the Hello is not recorded, and nothing ties the Identify frame to it.
\<close>

theorem handshake_licensed:
  "licensed (0, False) (effects (run (init st) es)) \<and>
   length (filter isHelloTask (tasks (run (init st) es)))
     \<le> fst (foldl advance (0, False) (effects (run (init st) es))) \<and>
   effects (step w e) = effects w @ newEffects w e \<and>
   (Send s (Identify a) \<in> set (newEffects w e) \<longrightarrow>
      (\<exists>k b. (e = Resume k \<or> e = ResumeThrowing k) \<and> k < length (tasks w) \<and> tasks w ! k = HelloTask b) \<and>
      obsWebSocket w = Some s \<and> readyStateOf w s = OPEN \<and> newEffects w e = [Send s (Identify a)]) \<and>
   (length (filter isHelloTask (tasks w)) < length (filter isHelloTask (tasks (step w e))) \<longrightarrow>
      (\<exists>i b. e = SocketMessage i (Some (Hello b)) \<and> readyStateOf w i = OPEN \<and>
         newEffects w e = [LogReceived i (Hello b)] \<and> tasks (step w e) = tasks w @ [HelloTask b])) \<and>
   (LogKeepaliveStarted \<in> set (newEffects w e) \<longrightarrow>
      (\<exists>i. e = SocketMessage i (Some Identified) \<and> readyStateOf w i = OPEN \<and>
         newEffects w e =
           [LogReceived i Identified, LogKeepaliveStarted, StatusUpdate (isConnected w) True None]))"
proof -
  have inv: "hs_inv (hs (run (init st) es))"
    by (rule hs_inv_run [OF hs_inv_init])
  have a: "effects (step w e) = effects w @ newEffects w e"
    using newEffects_cases [of w e] by auto
  have b: "Send s (Identify a) \<in> set (newEffects w e) \<longrightarrow>
      (\<exists>k b. (e = Resume k \<or> e = ResumeThrowing k) \<and> k < length (tasks w) \<and> tasks w ! k = HelloTask b) \<and>
      obsWebSocket w = Some s \<and> readyStateOf w s = OPEN \<and> newEffects w e = [Send s (Identify a)]"
    using newEffects_cases [of w e] plain_not_handshake(2) [of "newEffects w e" s a]
    by (elim disjE exE conjE) auto
  have c: "length (filter isHelloTask (tasks w)) < length (filter isHelloTask (tasks (step w e))) \<longrightarrow>
      (\<exists>i b. e = SocketMessage i (Some (Hello b)) \<and> readyStateOf w i = OPEN \<and>
         newEffects w e = [LogReceived i (Hello b)] \<and> tasks (step w e) = tasks w @ [HelloTask b])"
  proof
    assume l: "length (filter isHelloTask (tasks w)) < length (filter isHelloTask (tasks (step w e)))"
    have "length (filter isHelloTask (take k (tasks w) @ drop (Suc k) (tasks w)))
            \<le> length (filter isHelloTask (tasks w))" if "k < length (tasks w)" for k
      using filter_remove [OF that, of isHelloTask] by (simp split: if_splits)
    with l newEffects_cases [of w e]
    show "\<exists>i b. e = SocketMessage i (Some (Hello b)) \<and> readyStateOf w i = OPEN \<and>
         newEffects w e = [LogReceived i (Hello b)] \<and> tasks (step w e) = tasks w @ [HelloTask b]"
      by (elim disjE exE conjE) (simp_all add: not_less [symmetric])
  qed
  have d: "LogKeepaliveStarted \<in> set (newEffects w e) \<longrightarrow>
      (\<exists>i. e = SocketMessage i (Some Identified) \<and> readyStateOf w i = OPEN \<and>
         newEffects w e =
           [LogReceived i Identified, LogKeepaliveStarted, StatusUpdate (isConnected w) True None])"
    using newEffects_cases [of w e] plain_not_handshake(1) [of "newEffects w e"]
    by (elim disjE exE conjE) auto
  from inv a b c d show ?thesis
    by (simp add: hs_inv_def hs_def)
qed


text \<open>
  The theorem along a complete handshake: the Hello frame suspends a continuation, the
  continuation sends Identify on the socket that received the Hello, and the Identified
  frame starts the keepalive.
\<close>

theorem handshake_licensed_witness:
  "licensed (0, False) (effects (run (init st0) handshake)) \<and>
   Send 0 (Identify None) \<in> set (newEffects greeted (Resume 0)) \<and>
   tasks greeted ! 0 = HelloTask None \<and>
   obsWebSocket greeted = Some 0 \<and>
   readyStateOf greeted 0 = OPEN \<and>
   newEffects greeted (Resume 0) = [Send 0 (Identify None)] \<and>
   length (filter isHelloTask (tasks connected)) < length (filter isHelloTask (tasks greeted)) \<and>
   newEffects connected (SocketMessage 0 (Some (Hello None))) = [LogReceived 0 (Hello None)] \<and>
   LogKeepaliveStarted \<in> set (newEffects connected (SocketMessage 0 (Some Identified))) \<and>
   newEffects connected (SocketMessage 0 (Some Identified)) =
     [LogReceived 0 Identified, LogKeepaliveStarted, StatusUpdate True True None]"
proof -
  have c: "tasks connected = []" "effects connected = [StatusUpdate True False None]"
    "isConnected connected"
    by (simp_all add: connected_def model_defs)
  have g: "tasks greeted = [HelloTask None]"
    "effects (step greeted (Resume 0)) =
       [StatusUpdate True False None, LogReceived 0 (Hello None), Send 0 (Identify None)]"
    "effects greeted = [StatusUpdate True False None, LogReceived 0 (Hello None)]"
    by (simp_all add: greeted_def connected_def model_defs)
  have k: "effects (step connected (SocketMessage 0 (Some Identified))) =
       [StatusUpdate True False None, LogReceived 0 Identified, LogKeepaliveStarted,
        StatusUpdate True True None]"
    by (simp add: connected_def model_defs)
  have 1: "Send 0 (Identify None) \<in> set (newEffects greeted (Resume 0))"
    by (simp add: newEffects_def g)
  have 2: "length (filter isHelloTask (tasks connected))
             < length (filter isHelloTask (tasks (step connected (SocketMessage 0 (Some (Hello None))))))"
    using g(1) c(1) by (simp add: greeted_def)
  have 3: "LogKeepaliveStarted \<in> set (newEffects connected (SocketMessage 0 (Some Identified)))"
    by (simp add: newEffects_def k c)
  from handshake_licensed [of st0 handshake greeted "Resume 0" 0 None]
       handshake_licensed [of st0 handshake connected "SocketMessage 0 (Some (Hello None))" 0 None]
       handshake_licensed [of st0 handshake connected "SocketMessage 0 (Some Identified)" 0 None]
       1 2 3 c(3) g(1)
  show ?thesis
    by (auto simp: greeted_def)
qed

text \<open>
  Against claim C5 as stated, for a single connection attempt: an Identify frame sent on
  a socket that has received no Hello, so that the log is out of order per connection. In the first run the Connect button of the popup
  has left two sockets alive; both open, the Hello frame arrives on socket 0 and the
  Identify frame goes to socket 1, the current one. In the second run socket 0 receives
  Hello and closes before the continuation of handleHello runs; the reconnect opens
  socket 1, and the continuation then sends Identify on it.
\<close>

theorem identify_without_hello:
  "effects (run (init st0) wrongSocket) =
     [StatusUpdate True False None, StatusUpdate True False None, LogReceived 0 (Hello None),
      Send 1 (Identify None)] \<and>
   effects (run (init st0) staleHello) =
     [StatusUpdate True False None, LogReceived 0 (Hello None),
      StatusUpdate False False (Some ''Disconnected''), LogReconnecting 2000,
      StatusUpdate True False None, Send 1 (Identify None)] \<and>
   \<not> attempt_order ([], False) (effects (run (init st0) wrongSocket)) \<and>
   \<not> attempt_order ([], False) (effects (run (init st0) staleHello))"
  by (simp add: wrongSocket_def connectTwice_def staleHello_def model_defs)

text \<open>
  The order is a real constraint: a complete handshake produces both effects, in order,
  and a log that sends Identify or starts the keepalive unprompted is out of order, also
  after an earlier handshake.
\<close>

lemma handshake_example:
  "effects (run (init st0) handshake) =
     [StatusUpdate True False None, LogReceived 0 (Hello None), Send 0 (Identify None),
      LogReceived 0 Identified, LogKeepaliveStarted, StatusUpdate True True None]"
  "attempt_order ([], False) (effects (run (init st0) handshake))"
  by (simp_all add: handshake_def model_defs)

lemma out_of_order_examples:
  "\<not> licensed (0, False) [Send 0 (Identify None), LogReceived 0 (Hello None)]"
  "\<not> licensed (0, False) [LogReceived 0 (Hello None), LogKeepaliveStarted]"
  "\<not> licensed (0, False)
       [LogReceived 0 (Hello None), Send 0 (Identify None), LogReceived 0 Identified,
        LogKeepaliveStarted, Close 0, Send 1 (Identify None)]"
  "\<not> licensed (0, False)
       [LogReceived 0 (Hello None), Send 0 (Identify None), LogReceived 0 Identified,
        LogKeepaliveStarted, Close 0, LogKeepaliveStarted]"
  "\<not> licensed (0, False)
       [LogReceived 0 Identified, StatusUpdate True True None, LogKeepaliveStarted]"
  by simp_all




text \<open>
  The example of the specification: the Hello frame carries salt s and challenge c and
  the stored password is p. The Identify frame carries the digest of the authentication
  engine for these inputs.
\<close>

lemma hello_authenticated_example:
  "effects (run (init stp)
     [Resume 0, CONNECT_OBS, Resume 0, SocketOpen 0,
      SocketMessage 0 (Some (Hello (Some (Authentication ''c'' ''s'')))), Resume 0]) =
     [StatusUpdate True False None, LogReceived 0 (Hello (Some (Authentication ''c'' ''s''))),
      Send 0 (Identify (Some ''LEfh2WVBWpa8M06P7MehLXlToA1PtH2lNSNPjUZVYls=''))]"
  by (simp add: stp_def model_defs generateAuthString_p_s_c)

subsection \<open>One transport\<close>

text \<open>
  Claim C8 fails on the code. The popup's Connect button calls connectToOBS twice, and
  the second call comes while the first socket is still connecting: the guard of
  connectToOBS looks for an open socket only, so a second socket is created and the first
  one is neither closed nor referenced any more. Both are live, no close has been issued,
  and both then open.
\<close>

theorem two_live_sockets:
  "sockets (run (init st0) connectTwice) = [CONNECTING, CONNECTING] \<and>
   obsWebSocket (run (init st0) connectTwice) = Some 1 \<and>
   effects (run (init st0) connectTwice) = [] \<and>
   sockets (run (init st0) (connectTwice @ [SocketOpen 0, SocketOpen 1])) = [OPEN, OPEN]"
  by (simp add: connectTwice_def model_defs)

section \<open>Properties of the highlight operation\<close>

lemma sendHighlightToOBS_Fulfilled:
  assumes "snd (sendHighlightToOBS w now await md) = Fulfilled b"
  shows "b \<and> isAuthenticated w \<and>
         (\<exists>cfg base v1 v2.
            await (getInputSettings w) = Fulfilled cfg \<and>
            optChain (optChain cfg ''inputSettings'') ''url'' = JStr base \<and> base \<noteq> [] \<and>
            await (setInputSettings w (newUrl base (params w now md))) = Fulfilled v1 \<and>
            await (pressInputPropertiesButton w) = Fulfilled v2 \<and>
            fst (sendHighlightToOBS w now await md)
              = [getInputSettings w, setInputSettings w (newUrl base (params w now md)),
                 pressInputPropertiesButton w])"
  using assms
  by (auto simp: sendHighlightToOBS_def Let_def split: if_splits promise.splits json.splits)

lemma sendHighlightToOBS_Rejected:
  assumes "snd (sendHighlightToOBS w now await md) = Rejected e"
  shows "(\<forall>q \<in> set (butlast (fst (sendHighlightToOBS w now await md))). \<exists>v. await q = Fulfilled v) \<and>
         (fst (sendHighlightToOBS w now await md) = [] \<and> e = Error ''Not connected to OBS'' \<or>
          fst (sendHighlightToOBS w now await md) \<noteq> [] \<and>
            await (last (fst (sendHighlightToOBS w now await md))) = Rejected e \<or>
          fst (sendHighlightToOBS w now await md) = [getInputSettings w] \<and>
            (\<exists>cfg. await (getInputSettings w) = Fulfilled cfg) \<and>
            (e = targetNotFound (sourceName w) \<or> e = TypeError ''baseUrl.split is not a function''))"
  using assms
  by (auto simp: sendHighlightToOBS_def Let_def split: if_splits promise.splits json.splits)

lemma sendHighlightToOBS_settles:
  assumes "\<forall>q. await q \<noteq> Pending"
  shows "snd (sendHighlightToOBS w now await md) \<noteq> Pending"
proof -
  have n: "await q \<noteq> Pending" for q
    using assms by blast
  show ?thesis
    by (simp add: sendHighlightToOBS_def Let_def n split: promise.splits json.splits)
qed

lemma sendHighlightToOBS_no_url:
  assumes "isAuthenticated w" "await (getInputSettings w) = Fulfilled cfg"
    "\<not> truthy (optChain (optChain cfg ''inputSettings'') ''url'')"
  shows "sendHighlightToOBS w now await md = ([getInputSettings w], Rejected (targetNotFound (sourceName w)))"
  using assms by (simp add: sendHighlightToOBS_def Let_def)

lemma sendHighlightToOBS_url:
  assumes "isAuthenticated w" "await (getInputSettings w) = Fulfilled cfg"
    "optChain (optChain cfg ''inputSettings'') ''url'' = JStr baseUrl" "baseUrl \<noteq> []"
  shows "\<exists>rest. fst (sendHighlightToOBS w now await md)
           = getInputSettings w # setInputSettings w (newUrl baseUrl (params w now md)) # rest"
  using assms by (simp add: sendHighlightToOBS_def Let_def split: promise.splits)

lemma takeWhile_newUrl:
  "takeWhile (\<lambda>c. c \<noteq> CHR ''?'') (newUrl baseUrl ps) = takeWhile (\<lambda>c. c \<noteq> CHR ''?'') baseUrl"
proof -
  have "\<forall>c \<in> set (takeWhile (\<lambda>c. c \<noteq> CHR ''?'') baseUrl). c \<noteq> CHR ''?''"
    by (auto dest: set_takeWhileD)
  then show ?thesis
    by (simp add: newUrl_def takeWhile_append2 Let_def)
qed

lemma sendHighlightToOBS_timestamp:
  "sendHighlightToOBS w now await (md\<lparr>timestamp := t\<rparr>) = sendHighlightToOBS w now await md"
  by (simp add: sendHighlightToOBS_def params_def)

subsection \<open>The query string\<close>

lemma hexValue_hexDigit_all:
  "map (\<lambda>n. hexValue (hexDigit n)) [0..<16] = [0..<16]"
  by (simp add: upt_rec hexValue_def hexDigit_def)

lemma hexValue_hexDigit:
  assumes "n < 16"
  shows "hexValue (hexDigit n) = n"
proof -
  from assms have "map (\<lambda>n. hexValue (hexDigit n)) [0..<16] ! n = hexValue (hexDigit ([0..<16] ! n))"
    by (intro nth_map) simp
  with assms show ?thesis
    by (simp add: hexValue_hexDigit_all)
qed

lemma hexDigit_in: "n < 16 \<Longrightarrow> hexDigit n \<in> set ''0123456789ABCDEF''"
  unfolding hexDigit_def by (rule nth_mem) simp

lemma percentDecode_plain:
  "c \<noteq> CHR ''%'' \<Longrightarrow> percentDecode (c # cs) = (if c = CHR ''+'' then CHR '' '' else c) # percentDecode cs"
  by (cases "(c # cs)" rule: percentDecode.cases) simp_all

lemma percentDecode_escape:
  "percentDecode (CHR ''%'' # h # l # cs) = char_of (hexValue h * 16 + hexValue l) # percentDecode cs"
  by simp

lemma unreserved_not_special:
  assumes "unreserved c"
  shows "c \<noteq> CHR ''%''" "c \<noteq> CHR ''+''" "c \<noteq> CHR ''&''" "c \<noteq> CHR ''=''" "c \<noteq> CHR '' ''"
  using assms by (auto simp: unreserved_def)

lemma of_char_div_lt: "(of_char c :: nat) div 16 < 16"
proof -
  have "(of_char c :: nat) < 256" by (rule nat_of_char_less_256)
  then show ?thesis by presburger
qed

lemma percentDecode_percentEncode:
  "percentDecode (percentEncode c @ cs) = c # percentDecode cs"
proof (cases "c = CHR '' ''")
  case True
  then show ?thesis by (simp add: percentEncode_def percentDecode_plain)
next
  case False
  note sp = this
  show ?thesis
  proof (cases "unreserved c")
    case True
    with sp unreserved_not_special [OF True] show ?thesis
      by (simp add: percentEncode_def percentDecode_plain)
  next
    case False
    have "char_of (hexValue (hexDigit (of_char c div 16)) * 16 + hexValue (hexDigit (of_char c mod 16))) = c"
      by (simp add: hexValue_hexDigit of_char_div_lt)
    with sp False show ?thesis
      by (simp add: percentEncode_def del: percentDecode.simps add: percentDecode_escape)
  qed
qed

lemma percentDecode_urlencode: "percentDecode (urlencode s @ cs) = s @ percentDecode cs"
  by (induction s) (simp_all add: urlencode_def percentDecode_percentEncode)

lemma percentDecode_urlencode' [simp]: "percentDecode (urlencode s) = s"
  using percentDecode_urlencode [of s "[]"] by simp

lemma percentEncode_no_separator:
  assumes "x \<in> set (percentEncode c)"
  shows "x \<noteq> CHR ''&'' \<and> x \<noteq> CHR ''=''"
proof (cases "c = CHR '' '' \<or> unreserved c")
  case True
  with assms unreserved_not_special [of c] show ?thesis
    by (auto simp: percentEncode_def split: if_splits)
next
  case False
  with assms have "x = CHR ''%'' \<or> x \<in> set ''0123456789ABCDEF''"
    using hexDigit_in [OF of_char_div_lt [of c]] hexDigit_in [of "of_char c mod 16"]
    by (auto simp: percentEncode_def)
  then show ?thesis by auto
qed

lemma urlencode_no_separator:
  "CHR ''&'' \<notin> set (urlencode s)" "CHR ''='' \<notin> set (urlencode s)"
  using percentEncode_no_separator by (auto simp: urlencode_def)

lemma splitOn_nonempty [simp]: "splitOn c s \<noteq> []"
  by (induction s) (auto split: list.splits)

lemma splitOn_none: "c \<notin> set a \<Longrightarrow> splitOn c a = [a]"
  by (induction a) auto

lemma splitOn_append: "c \<notin> set a \<Longrightarrow> splitOn c (a @ c # rest) = a # splitOn c rest"
  by (induction a) auto

lemma takeWhile_upto: "x \<notin> set a \<Longrightarrow> takeWhile (\<lambda>c. c \<noteq> x) (a @ x # r) = a"
  by (induction a) auto

lemma dropWhile_upto: "x \<notin> set a \<Longrightarrow> dropWhile (\<lambda>c. c \<noteq> x) (a @ x # r) = x # r"
  by (induction a) auto

lemma parsePair_pair [simp]: "parsePair (urlencode k @ CHR ''='' # urlencode v) = (k, v)"
  using urlencode_no_separator(2) [of k]
  by (simp add: parsePair_def takeWhile_upto dropWhile_upto)

lemma parseQuery_toString: "parseQuery (toString ps) = ps"
proof (induction ps rule: toString.induct)
  case 1
  show ?case by (simp add: parseQuery_def)
next
  case (2 k v)
  have "CHR ''&'' \<notin> set (urlencode k @ CHR ''='' # urlencode v)"
    using urlencode_no_separator(1) by simp
  from splitOn_none [OF this] show ?case
    by (simp add: parseQuery_def)
next
  case (3 k v p ps)
  have n: "CHR ''&'' \<notin> set (urlencode k @ ''='' @ urlencode v)"
    using urlencode_no_separator(1) by simp
  have "toString ((k, v) # p # ps) = (urlencode k @ ''='' @ urlencode v) @ CHR ''&'' # toString (p # ps)"
    by (cases p) simp
  with splitOn_append [OF n] 3 show ?case
    by (simp add: parseQuery_def del: toString.simps) 
qed

text \<open>
  Claim C7. When the fetched configuration has no destination URL, the highlight
  operation fails with an error that names the expected browser source, and the only
  request it has issued is the fetch. The operation reports success only if all three
  requests were issued and each was fulfilled; when it fails, every request before the
  failing step was fulfilled and the error reported is that of the failing step. When
  every request settles, so does the operation.
\<close>

theorem highlight_all_or_nothing:
  "(isAuthenticated w \<and> await (getInputSettings w) = Fulfilled cfg \<and>
    \<not> truthy (optChain (optChain cfg ''inputSettings'') ''url'') \<longrightarrow>
      sendHighlightToOBS w now await md =
        ([getInputSettings w], Rejected (targetNotFound (sourceName w)))) \<and>
   errorMessage (targetNotFound n) =
     ''Browser source \"'' @ n @ ''\" not found or has no URL. ''
       @ ''Please create a browser source named \"'' @ n @ ''\" in OBS.'' \<and>
   (snd (sendHighlightToOBS w now await md) = Fulfilled b \<longrightarrow>
      b \<and> isAuthenticated w \<and>
      (\<exists>cfg base v1 v2.
         await (getInputSettings w) = Fulfilled cfg \<and>
         optChain (optChain cfg ''inputSettings'') ''url'' = JStr base \<and> base \<noteq> [] \<and>
         await (setInputSettings w (newUrl base (params w now md))) = Fulfilled v1 \<and>
         await (pressInputPropertiesButton w) = Fulfilled v2 \<and>
         fst (sendHighlightToOBS w now await md) =
           [getInputSettings w, setInputSettings w (newUrl base (params w now md)),
            pressInputPropertiesButton w])) \<and>
   (snd (sendHighlightToOBS w now await md) = Rejected e \<longrightarrow>
      (\<forall>q \<in> set (butlast (fst (sendHighlightToOBS w now await md))). \<exists>v. await q = Fulfilled v) \<and>
      (fst (sendHighlightToOBS w now await md) = [] \<and> e = Error ''Not connected to OBS'' \<or>
       fst (sendHighlightToOBS w now await md) \<noteq> [] \<and>
         await (last (fst (sendHighlightToOBS w now await md))) = Rejected e \<or>
       fst (sendHighlightToOBS w now await md) = [getInputSettings w] \<and>
         (\<exists>cfg. await (getInputSettings w) = Fulfilled cfg) \<and>
         (e = targetNotFound (sourceName w) \<or> e = TypeError ''baseUrl.split is not a function''))) \<and>
   ((\<forall>q. await q \<noteq> Pending) \<longrightarrow> snd (sendHighlightToOBS w now await md) \<noteq> Pending)"
proof -
  have m: "errorMessage (targetNotFound n) =
     ''Browser source \"'' @ n @ ''\" not found or has no URL. ''
       @ ''Please create a browser source named \"'' @ n @ ''\" in OBS.''"
    by (simp add: errorMessage_def targetNotFound_def)
  show ?thesis
    using sendHighlightToOBS_no_url [of w await cfg now md]
      sendHighlightToOBS_Fulfilled [of w now await md b]
      sendHighlightToOBS_Rejected [of w now await md e] m
      sendHighlightToOBS_settles [of await w now md]
    by blast
qed

text \<open>
  The theorem at the authenticated client: a configuration without URL, a run in which
  every request is fulfilled, and a run in which the refresh is rejected after the update
  went through.
\<close>

theorem highlight_all_or_nothing_witness:
  "isAuthenticated ready \<and>
   sendHighlightToOBS ready 0 noUrl md0 =
     ([(''GetInputSettings'', JObj [(''inputName'', JStr ''TwitchHighlight'')])],
      Rejected (targetNotFound ''TwitchHighlight'')) \<and>
   snd (sendHighlightToOBS ready 0 allOk md0) = Fulfilled True \<and>
   length (fst (sendHighlightToOBS ready 0 allOk md0)) = 3 \<and>
   snd (sendHighlightToOBS ready 0 refreshFails md0) = Rejected (Error ''No source was found'') \<and>
   refreshFails (last (fst (sendHighlightToOBS ready 0 refreshFails md0))) =
     Rejected (Error ''No source was found'') \<and>
   (\<forall>q. noUrl q \<noteq> Pending) \<and>
   snd (sendHighlightToOBS ready 1 noUrl md0) \<noteq> Pending"
proof -
  have r: "isAuthenticated ready" "sourceName ready = ''TwitchHighlight''"
    by (simp_all add: ready_def connected_def sourceName_def model_defs)
  have g: "getInputSettings ready = (''GetInputSettings'', JObj [(''inputName'', JStr ''TwitchHighlight'')])"
    by (simp add: getInputSettings_def r)
  have n: "noUrl (getInputSettings ready) = Fulfilled (JObj [(''inputSettings'', JObj [])])"
    "\<not> truthy (optChain (optChain (JObj [(''inputSettings'', JObj [])]) ''inputSettings'') ''url'')"
    by (simp_all add: noUrl_def)
  have ok: "snd (sendHighlightToOBS ready 0 allOk md0) = Fulfilled True"
    by (simp add: sendHighlightToOBS_def r g allOk_def setInputSettings_def
        pressInputPropertiesButton_def Let_def)
  have f: "snd (sendHighlightToOBS ready 0 refreshFails md0) = Rejected (Error ''No source was found'')"
    by (simp add: sendHighlightToOBS_def r g refreshFails_def allOk_def setInputSettings_def
        pressInputPropertiesButton_def Let_def)
  from highlight_all_or_nothing [of ready noUrl "JObj [(''inputSettings'', JObj [])]" 0 md0 "[]" True "Error []"]
    r n g
  have a: "sendHighlightToOBS ready 0 noUrl md0 =
     ([(''GetInputSettings'', JObj [(''inputName'', JStr ''TwitchHighlight'')])],
      Rejected (targetNotFound ''TwitchHighlight''))"
    by simp
  from highlight_all_or_nothing [of ready allOk JNull 0 md0 "[]" True "Error []"] ok
  have b: "length (fst (sendHighlightToOBS ready 0 allOk md0)) = 3"
    by auto
  from highlight_all_or_nothing [of ready refreshFails JNull 0 md0 "[]" True "Error ''No source was found''"] f
  have c: "refreshFails (last (fst (sendHighlightToOBS ready 0 refreshFails md0))) =
     Rejected (Error ''No source was found'')"
    by (auto simp: targetNotFound_def)
  have u: "\<forall>q. noUrl q \<noteq> Pending"
    by (simp add: noUrl_def)
  from highlight_all_or_nothing [of ready noUrl JNull 1 md0 "[]" True "Error []"] u
  have d: "snd (sendHighlightToOBS ready 1 noUrl md0) \<noteq> Pending"
    by blast
  from r a ok b f c u d show ?thesis by blast
qed

text \<open>
  Claim C9. When the client is not authenticated, the highlight operation fails at once
  with the error Not connected to OBS, having issued no request, and the listener answers
  the caller with success false and that message instead of throwing.
\<close>

theorem highlight_not_authenticated:
  "\<not> isAuthenticated w \<longrightarrow>
     sendHighlightToOBS w now await md = ([], Rejected (Error ''Not connected to OBS'')) \<and>
     onMessage_HIGHLIGHT_MESSAGE w now await md
       = Some \<lparr>success = False, error = Some ''Not connected to OBS''\<rparr>"
  by (simp add: sendHighlightToOBS_def onMessage_HIGHLIGHT_MESSAGE_def errorMessage_def)

text \<open>The theorem at the client that is connected but not yet identified.\<close>

theorem highlight_not_authenticated_witness:
  "\<not> isAuthenticated connected \<and>
   sendHighlightToOBS connected 0 allOk md0 = ([], Rejected (Error ''Not connected to OBS'')) \<and>
   onMessage_HIGHLIGHT_MESSAGE connected 0 allOk md0
     = Some \<lparr>success = False, error = Some ''Not connected to OBS''\<rparr>"
proof -
  have "\<not> isAuthenticated connected"
    by (simp add: connected_def model_defs)
  with highlight_not_authenticated [of connected 0 allOk md0] show ?thesis
    by simp
qed

text \<open>
  Claim C10. When the fetched configuration holds a URL, the update request carries the
  part of that URL before its first question mark, a question mark, and the serialized
  parameters. The part before the first question mark of the new URL is that of the old
  one, nothing of the old query string remains, and the new query string reads back as
  exactly the five fields username, message, color, timestamp and duration, where
  timestamp is the time of dispatch: the timestamp field of the payload has no influence
  on the operation.
\<close>

theorem highlight_rewrites_url:
  "isAuthenticated w \<and> await (getInputSettings w) = Fulfilled cfg \<and>
   optChain (optChain cfg ''inputSettings'') ''url'' = JStr baseUrl \<and> baseUrl \<noteq> [] \<longrightarrow>
     (\<exists>rest. fst (sendHighlightToOBS w now await md) =
        getInputSettings w # setInputSettings w (newUrl baseUrl (params w now md)) # rest) \<and>
     newUrl baseUrl (params w now md) =
       takeWhile (\<lambda>c. c \<noteq> CHR ''?'') baseUrl @ ''?'' @ toString (params w now md) \<and>
     takeWhile (\<lambda>c. c \<noteq> CHR ''?'') (newUrl baseUrl (params w now md)) =
       takeWhile (\<lambda>c. c \<noteq> CHR ''?'') baseUrl \<and>
     parseQuery (drop (Suc (length (takeWhile (\<lambda>c. c \<noteq> CHR ''?'') baseUrl)))
                   (newUrl baseUrl (params w now md))) =
       [(''username'', username md), (''message'', message md), (''color'', userColor md),
        (''timestamp'', show_nat now), (''duration'', show_nat (duration w))] \<and>
     sendHighlightToOBS w now await (md\<lparr>timestamp := t\<rparr>) = sendHighlightToOBS w now await md"
proof (intro impI, elim conjE)
  assume h: "isAuthenticated w" "await (getInputSettings w) = Fulfilled cfg"
    "optChain (optChain cfg ''inputSettings'') ''url'' = JStr baseUrl" "baseUrl \<noteq> []"
  have q: "drop (Suc (length (takeWhile (\<lambda>c. c \<noteq> CHR ''?'') baseUrl))) (newUrl baseUrl ps) = toString ps" for ps
    by (simp add: newUrl_def Let_def)
  have p: "parseQuery (toString (params w now md)) =
       [(''username'', username md), (''message'', message md), (''color'', userColor md),
        (''timestamp'', show_nat now), (''duration'', show_nat (duration w))]"
    unfolding parseQuery_toString by (simp add: params_def)
  show "(\<exists>rest. fst (sendHighlightToOBS w now await md) =
        getInputSettings w # setInputSettings w (newUrl baseUrl (params w now md)) # rest) \<and>
     newUrl baseUrl (params w now md) =
       takeWhile (\<lambda>c. c \<noteq> CHR ''?'') baseUrl @ ''?'' @ toString (params w now md) \<and>
     takeWhile (\<lambda>c. c \<noteq> CHR ''?'') (newUrl baseUrl (params w now md)) =
       takeWhile (\<lambda>c. c \<noteq> CHR ''?'') baseUrl \<and>
     parseQuery (drop (Suc (length (takeWhile (\<lambda>c. c \<noteq> CHR ''?'') baseUrl)))
                   (newUrl baseUrl (params w now md))) =
       [(''username'', username md), (''message'', message md), (''color'', userColor md),
        (''timestamp'', show_nat now), (''duration'', show_nat (duration w))] \<and>
     sendHighlightToOBS w now await (md\<lparr>timestamp := t\<rparr>) = sendHighlightToOBS w now await md"
    using h sendHighlightToOBS_url [of w await cfg baseUrl now md]
      takeWhile_newUrl [of baseUrl "params w now md"]
      sendHighlightToOBS_timestamp [of w now await t md]
    unfolding q p
    by (simp add: newUrl_def Let_def)
qed

text \<open>
  The theorem at the authenticated client, whose browser source already carries a query
  string: the old query is gone and the new one holds the five fields.
\<close>

theorem highlight_rewrites_url_witness:
  "isAuthenticated ready \<and>
   allOk (getInputSettings ready) =
     Fulfilled (JObj [(''inputSettings'', JObj [(''url'', JStr ''http://host/overlay.html?username=old'')])]) \<and>
   newUrl ''http://host/overlay.html?username=old'' (params ready 1700000000000 md0) =
     ''http://host/overlay.html?username=viewer&message=hi+there&color=%239147ff&timestamp=1700000000000&duration=8'' \<and>
   parseQuery ''username=viewer&message=hi+there&color=%239147ff&timestamp=1700000000000&duration=8'' =
     [(''username'', ''viewer''), (''message'', ''hi there''), (''color'', ''#9147ff''),
      (''timestamp'', ''1700000000000''), (''duration'', ''8'')]"
proof -
  have r: "isAuthenticated ready" "sourceName ready = ''TwitchHighlight''" "duration ready = 8"
    by (simp_all add: ready_def connected_def sourceName_def duration_def model_defs)
  have g: "allOk (getInputSettings ready) =
     Fulfilled (JObj [(''inputSettings'', JObj [(''url'', JStr ''http://host/overlay.html?username=old'')])])"
    by (simp add: allOk_def getInputSettings_def)
  have o: "optChain (optChain (JObj [(''inputSettings'', JObj [(''url'', JStr ''http://host/overlay.html?username=old'')])])
             ''inputSettings'') ''url'' = JStr ''http://host/overlay.html?username=old''"
    by simp
  have s: "show_nat 1700000000000 = ''1700000000000''" "show_nat 8 = ''8''"
    by (simp_all add: show_nat.simps)
  have t: "toString (params ready 1700000000000 md0) =
     ''username=viewer&message=hi+there&color=%239147ff&timestamp=1700000000000&duration=8''"
    by (simp add: params_def md0_def r s urlencode_def percentEncode_def unreserved_def hexDigit_def)
  have w: "takeWhile (\<lambda>c. c \<noteq> CHR ''?'') ''http://host/overlay.html?username=old'' = ''http://host/overlay.html''"
    by simp
  from highlight_rewrites_url [of ready allOk
      "JObj [(''inputSettings'', JObj [(''url'', JStr ''http://host/overlay.html?username=old'')])]"
      "''http://host/overlay.html?username=old''" 1700000000000 md0 "[]"]
    r g o
  have n: "newUrl ''http://host/overlay.html?username=old'' (params ready 1700000000000 md0) =
      takeWhile (\<lambda>c. c \<noteq> CHR ''?'') ''http://host/overlay.html?username=old'' @ ''?''
        @ toString (params ready 1700000000000 md0)"
    and p: "parseQuery (drop (Suc (length (takeWhile (\<lambda>c. c \<noteq> CHR ''?'') ''http://host/overlay.html?username=old'')))
                   (newUrl ''http://host/overlay.html?username=old'' (params ready 1700000000000 md0))) =
       [(''username'', username md0), (''message'', message md0), (''color'', userColor md0),
        (''timestamp'', show_nat 1700000000000), (''duration'', show_nat (duration ready))]"
    by blast+
  from n have n': "newUrl ''http://host/overlay.html?username=old'' (params ready 1700000000000 md0) =
     ''http://host/overlay.html?username=viewer&message=hi+there&color=%239147ff&timestamp=1700000000000&duration=8''"
    unfolding w t by simp
  from p have "parseQuery ''username=viewer&message=hi+there&color=%239147ff&timestamp=1700000000000&duration=8'' =
       [(''username'', username md0), (''message'', message md0), (''color'', userColor md0),
        (''timestamp'', show_nat 1700000000000), (''duration'', show_nat (duration ready))]"
    unfolding n' w by simp
  then have "parseQuery ''username=viewer&message=hi+there&color=%239147ff&timestamp=1700000000000&duration=8'' =
     [(''username'', ''viewer''), (''message'', ''hi there''), (''color'', ''#9147ff''),
      (''timestamp'', ''1700000000000''), (''duration'', ''8'')]"
    by (simp add: md0_def r s)
  with r g n' show ?thesis
    by blast
qed

end
